theory Spec2Isabelle
  imports Complex_Main "HOL-Library.AList" "HOL-Library.Product_Lexorder" "HOL-Library.List_Lexorder"
    "HOL-Library.Char_ord"
begin

section \<open>Errors raised by the Python code\<close>

text \<open>
  Every \<^verbatim>\<open>raise\<close> of the modelled functions is a value of this type, and a function
  that can raise returns \<open>error + 'a\<close>. A recursion that need not return takes a fuel
  argument bounding its depth and returns \<open>None\<close> when the fuel is used up.
\<close>

datatype error =
    TypeError string
  | ValueError string
  | IndexError
  | KeyError
  | ZeroDivisionError
  | AttributeError
  | AssertionError string

text \<open>A loop whose body can raise stops at the first error.\<close>

fun fold_err :: "('x \<Rightarrow> 's \<Rightarrow> error + 's) \<Rightarrow> 'x list \<Rightarrow> 's \<Rightarrow> error + 's" where
  "fold_err f [] s = Inr s"
| "fold_err f (x # xs) s = (case f x s of Inl e \<Rightarrow> Inl e | Inr s' \<Rightarrow> fold_err f xs s')"

section \<open>Python dictionaries\<close>

text \<open>
  A dictionary is the list of its items; \<^verbatim>\<open>d[k]\<close> and \<^verbatim>\<open>d.get(k, default)\<close> read the
  first item with key \<open>k\<close>, \<^verbatim>\<open>d[k] = v\<close> replaces it or adds an item, \<^verbatim>\<open>del d[k]\<close>
  removes it. Two dictionaries are equal in Python when they hold the same items, in any
  order: \<open>map_of d = map_of d'\<close>.
\<close>

type_synonym ('k, 'v) dict = "('k \<times> 'v) list"

definition dict_get :: "('k, 'v) dict \<Rightarrow> 'k \<Rightarrow> 'v \<Rightarrow> 'v" where
  "dict_get d k dflt = (case map_of d k of None \<Rightarrow> dflt | Some v \<Rightarrow> v)"

definition dict_set :: "('k, 'v) dict \<Rightarrow> 'k \<Rightarrow> 'v \<Rightarrow> ('k, 'v) dict" where
  "dict_set d k v = AList.update k v d"

definition dict_del :: "('k, 'v) dict \<Rightarrow> 'k \<Rightarrow> ('k, 'v) dict" where
  "dict_del d k = AList.delete k d"

text \<open>
  The accumulation step shared by the arithmetic below:
  \<^verbatim>\<open>d[t] = d.get(t, 0) + x\<close> followed by \<^verbatim>\<open>if d[t] == 0: del d[t]\<close>.
\<close>

definition dict_accumulate ::
  "('k, 'v::ab_group_add) dict \<Rightarrow> 'k \<Rightarrow> 'v \<Rightarrow> ('k, 'v) dict" where
  "dict_accumulate d t x =
     (let d1 = dict_set d t (dict_get d t 0 + x)
      in if dict_get d1 t 0 = 0 then dict_del d1 t else d1)"

definition dict_eq :: "('k, 'v) dict \<Rightarrow> ('k, 'v) dict \<Rightarrow> bool" where
  "dict_eq d d' \<longleftrightarrow> map_of d = map_of d'"

text \<open>The arithmetic never stores a zero value.\<close>

definition nonzero_values :: "('k, 'v::zero) dict \<Rightarrow> bool" where
  "nonzero_values d \<longleftrightarrow> (\<forall>k. map_of d k \<noteq> Some 0)"

section \<open>Paths in directed graphs (\<^verbatim>\<open>sage/combinat/graph_path.py\<close>)\<close>

text \<open>
  A directed multigraph is its list of vertices and its list of edges
  \<open>(source, target, label)\<close>; parallel edges are repeated entries. The edge iterators
  of the host graph class are \<open>filter\<close>s of the edge list.
\<close>

record ('v, 'l) digraph =
  vertices :: "'v list"
  edges :: "('v \<times> 'v \<times> 'l) list"

definition edge_source :: "'v \<times> 'v \<times> 'l \<Rightarrow> 'v" where
  "edge_source e = fst e"

definition edge_target :: "'v \<times> 'v \<times> 'l \<Rightarrow> 'v" where
  "edge_target e = fst (snd e)"

text \<open>
  The first argument of \<^verbatim>\<open>GraphPaths\<close> is any Python object; \<^verbatim>\<open>isinstance(g, DiGraph)\<close>
  is the case distinction. A source or target that is not supplied is \<open>None\<close>. The four
  classes returned are the constructors of \<open>graph_paths\<close>. Every \<^verbatim>\<open>__init__\<close> sets
  \<^verbatim>\<open>self.graph\<close>; \<^verbatim>\<open>self.source\<close> is set by \<^verbatim>\<open>GraphPaths_s\<close> and \<^verbatim>\<open>GraphPaths_st\<close>
  only and \<^verbatim>\<open>self.target\<close> by \<^verbatim>\<open>GraphPaths_t\<close> and \<^verbatim>\<open>GraphPaths_st\<close> only, and reading
  an attribute that was not set raises AttributeError.
\<close>

datatype ('v, 'l) pyobject = DiGraphObj "('v, 'l) digraph" | OtherObj string

datatype ('v, 'l) graph_paths =
    GraphPaths_all "('v, 'l) digraph"
  | GraphPaths_s "('v, 'l) digraph" 'v
  | GraphPaths_t "('v, 'l) digraph" 'v
  | GraphPaths_st "('v, 'l) digraph" 'v 'v

definition GraphPaths ::
  "('v, 'l) pyobject \<Rightarrow> 'v option \<Rightarrow> 'v option \<Rightarrow> error + ('v, 'l) graph_paths" where
  "GraphPaths g source target =
     (case g of
        OtherObj _ \<Rightarrow> Inl (TypeError ''g must be a DiGraph'')
      | DiGraphObj dg \<Rightarrow>
          (case (source, target) of
             (None, None) \<Rightarrow> Inr (GraphPaths_all dg)
           | (Some s, None) \<Rightarrow>
               if s \<notin> set (vertices dg) then Inl (ValueError ''source must be in g'')
               else Inr (GraphPaths_s dg s)
           | (None, Some t) \<Rightarrow>
               if t \<notin> set (vertices dg) then Inl (ValueError ''target must be in g'')
               else Inr (GraphPaths_t dg t)
           | (Some s, Some t) \<Rightarrow>
               if s \<notin> set (vertices dg) then Inl (ValueError ''source must be in g'')
               else if t \<notin> set (vertices dg) then Inl (ValueError ''target must be in g'')
               else Inr (GraphPaths_st dg s t)))"

fun graph_attr :: "('v, 'l) graph_paths \<Rightarrow> ('v, 'l) digraph" where
  "graph_attr (GraphPaths_all g) = g"
| "graph_attr (GraphPaths_s g s) = g"
| "graph_attr (GraphPaths_t g t) = g"
| "graph_attr (GraphPaths_st g s t) = g"

fun source_attr :: "('v, 'l) graph_paths \<Rightarrow> error + 'v option" where
  "source_attr (GraphPaths_all g) = Inl AttributeError"
| "source_attr (GraphPaths_s g s) = Inr (Some s)"
| "source_attr (GraphPaths_t g t) = Inl AttributeError"
| "source_attr (GraphPaths_st g s t) = Inr (Some s)"

fun target_attr :: "('v, 'l) graph_paths \<Rightarrow> error + 'v option" where
  "target_attr (GraphPaths_all g) = Inl AttributeError"
| "target_attr (GraphPaths_s g s) = Inl AttributeError"
| "target_attr (GraphPaths_t g t) = Inr (Some t)"
| "target_attr (GraphPaths_st g s t) = Inr (Some t)"

text \<open>
  \<^verbatim>\<open>outgoing_paths\<close> and \<^verbatim>\<open>incoming_paths\<close> call themselves on the far end of every
  edge. The \<^verbatim>\<open>for\<close> loop over the edges is \<open>outgoing_loop\<close>, the recursive call is its
  first argument, and \<^verbatim>\<open>[v] + path\<close> is \<open>v # path\<close>.
\<close>

definition outgoing_edges :: "('v, 'l) digraph \<Rightarrow> 'v \<Rightarrow> ('v \<times> 'v \<times> 'l) list" where
  "outgoing_edges g v = filter (\<lambda>e. edge_source e = v) (edges g)"

definition incoming_edges :: "('v, 'l) digraph \<Rightarrow> 'v \<Rightarrow> ('v \<times> 'v \<times> 'l) list" where
  "incoming_edges g v = filter (\<lambda>e. edge_target e = v) (edges g)"

fun outgoing_loop ::
  "('v \<Rightarrow> 'v list list option) \<Rightarrow> 'v \<Rightarrow> ('v \<times> 'v \<times> 'l) list \<Rightarrow> 'v list list
     \<Rightarrow> 'v list list option" where
  "outgoing_loop rec v [] source_paths = Some source_paths"
| "outgoing_loop rec v (e # es) source_paths =
     (case rec (edge_target e) of
        None \<Rightarrow> None
      | Some target_paths \<Rightarrow>
          outgoing_loop rec v es (source_paths @ map (\<lambda>path. v # path) target_paths))"

fun outgoing_paths :: "nat \<Rightarrow> ('v, 'l) digraph \<Rightarrow> 'v \<Rightarrow> 'v list list option" where
  "outgoing_paths 0 g v = None"
| "outgoing_paths (Suc fuel) g v =
     outgoing_loop (outgoing_paths fuel g) v (outgoing_edges g v) [[v]]"

fun incoming_loop ::
  "('v \<Rightarrow> 'v list list option) \<Rightarrow> 'v \<Rightarrow> ('v \<times> 'v \<times> 'l) list \<Rightarrow> 'v list list
     \<Rightarrow> 'v list list option" where
  "incoming_loop rec v [] target_paths = Some target_paths"
| "incoming_loop rec v (e # es) target_paths =
     (case rec (edge_source e) of
        None \<Rightarrow> None
      | Some source_paths \<Rightarrow>
          incoming_loop rec v es (target_paths @ map (\<lambda>path. path @ [v]) source_paths))"

fun incoming_paths :: "nat \<Rightarrow> ('v, 'l) digraph \<Rightarrow> 'v \<Rightarrow> 'v list list option" where
  "incoming_paths 0 g v = None"
| "incoming_paths (Suc fuel) g v =
     incoming_loop (incoming_paths fuel g) v (incoming_edges g v) [[v]]"

text \<open>
  \<^verbatim>\<open>paths_from_source_to_target\<close> keeps the paths with \<^verbatim>\<open>path[-1] == target\<close>;
  \<^verbatim>\<open>path[-1]\<close> of an empty list raises IndexError.
\<close>

fun select_target :: "'v \<Rightarrow> 'v list list \<Rightarrow> 'v list list \<Rightarrow> error + 'v list list" where
  "select_target target [] paths = Inr paths"
| "select_target target (path # rest) paths =
     (if path = [] then Inl IndexError
      else if last path = target then select_target target rest (paths @ [path])
      else select_target target rest paths)"

definition paths_from_source_to_target ::
  "nat \<Rightarrow> ('v, 'l) digraph \<Rightarrow> 'v \<Rightarrow> 'v \<Rightarrow> (error + 'v list list) option" where
  "paths_from_source_to_target fuel g source target =
     (case outgoing_paths fuel g source of
        None \<Rightarrow> None
      | Some source_paths \<Rightarrow> Some (select_target target source_paths []))"

fun paths_loop ::
  "('v \<Rightarrow> 'v list list option) \<Rightarrow> 'v list \<Rightarrow> 'v list list \<Rightarrow> 'v list list option" where
  "paths_loop rec [] paths = Some paths"
| "paths_loop rec (source # rest) paths =
     (case rec source of
        None \<Rightarrow> None
      | Some ps \<Rightarrow> paths_loop rec rest (paths @ ps))"

definition paths :: "nat \<Rightarrow> ('v, 'l) digraph \<Rightarrow> 'v list list option" where
  "paths fuel g = paths_loop (outgoing_paths fuel g) (vertices g) []"

fun list_paths :: "nat \<Rightarrow> ('v, 'l) graph_paths \<Rightarrow> (error + 'v list list) option" where
  "list_paths fuel (GraphPaths_all g) = map_option Inr (paths fuel g)"
| "list_paths fuel (GraphPaths_t g t) = map_option Inr (incoming_paths fuel g t)"
| "list_paths fuel (GraphPaths_s g s) = map_option Inr (outgoing_paths fuel g s)"
| "list_paths fuel (GraphPaths_st g s t) = paths_from_source_to_target fuel g s t"

definition count_paths :: "nat \<Rightarrow> ('v, 'l) graph_paths \<Rightarrow> (error + nat) option" where
  "count_paths fuel p = map_option (map_sum id length) (list_paths fuel p)"

text \<open>The graph of the docstrings, and a two-vertex cycle.\<close>

definition G_example :: "(nat, unit) digraph" where
  "G_example = \<lparr> vertices = [1, 2, 3, 4, 5],
     edges = [(1, 2, ()), (1, 2, ()), (1, 3, ()), (2, 3, ()), (2, 4, ()), (3, 4, ()),
              (4, 5, ()), (4, 5, ())] \<rparr>"

definition G_loop :: "(nat, unit) digraph" where
  "G_loop = \<lparr> vertices = [1, 2], edges = [(1, 2, ()), (2, 1, ())] \<rparr>"

subsection \<open>Walks: the specification of a path\<close>

text \<open>
  The graph has no directed cycle when its edge relation is \<open>acyclic\<close>. A walk from
  \<open>u\<close> to \<open>w\<close> is a sequence of edges, named by their positions in the edge list,
  each starting where the previous one ends; its vertex sequence is what the code prints
  as a path. \<open>outgoing_walks\<close> follows the recursion of \<open>outgoing_paths\<close> and returns
  the edge sequences themselves; it is used to relate the code to \<open>is_walk\<close>.
\<close>

definition edge_rel :: "('v, 'l) digraph \<Rightarrow> ('v \<times> 'v) set" where
  "edge_rel g = (\<lambda>e. (edge_source e, edge_target e)) ` set (edges g)"

fun is_walk :: "('v, 'l) digraph \<Rightarrow> 'v \<Rightarrow> nat list \<Rightarrow> 'v \<Rightarrow> bool" where
  "is_walk g u [] w = (u = w)"
| "is_walk g u (i # js) w =
     (i < length (edges g) \<and> edge_source (edges g ! i) = u
      \<and> is_walk g (edge_target (edges g ! i)) js w)"

definition walk_vertices :: "('v, 'l) digraph \<Rightarrow> 'v \<Rightarrow> nat list \<Rightarrow> 'v list" where
  "walk_vertices g u js = u # map (\<lambda>i. edge_target (edges g ! i)) js"

definition out_indices :: "('v, 'l) digraph \<Rightarrow> 'v \<Rightarrow> nat list" where
  "out_indices g v = filter (\<lambda>i. edge_source (edges g ! i) = v) [0..<length (edges g)]"

fun walks_loop ::
  "('v \<Rightarrow> nat list list option) \<Rightarrow> ('v, 'l) digraph \<Rightarrow> nat list \<Rightarrow> nat list list
     \<Rightarrow> nat list list option" where
  "walks_loop rec g [] acc = Some acc"
| "walks_loop rec g (j # js) acc =
     (case rec (edge_target (edges g ! j)) of
        None \<Rightarrow> None
      | Some ws \<Rightarrow> walks_loop rec g js (acc @ map (\<lambda>w. j # w) ws))"

fun outgoing_walks :: "nat \<Rightarrow> ('v, 'l) digraph \<Rightarrow> 'v \<Rightarrow> nat list list option" where
  "outgoing_walks 0 g v = None"
| "outgoing_walks (Suc fuel) g v =
     walks_loop (outgoing_walks fuel g) g (out_indices g v) [[]]"

definition walks_from :: "('v, 'l) digraph \<Rightarrow> 'v \<Rightarrow> nat list set" where
  "walks_from g u = {w. \<exists>t. is_walk g u w t}"

section \<open>Filtered modules with basis (\<^verbatim>\<open>sage/categories/filtered_modules_with_basis.py\<close>)\<close>

text \<open>
  An element of a module with basis is the dictionary of its nonzero coefficients, from
  basis indices to scalars; iterating over the element yields its items, \<^verbatim>\<open>support()\<close>
  its keys. \<^verbatim>\<open>parent().degree_on_basis\<close> is the parameter \<open>degree_on_basis\<close>. The host
  module class supplies \<^verbatim>\<open>sum_of_terms\<close>, which adds the terms one by one into a
  dictionary and drops coefficients that become zero, the sum of two elements, and
  \<^verbatim>\<open>leading_support\<close>, the maximum of the support.
\<close>

type_synonym ('b, 'r) element = "('b, 'r) dict"

definition support :: "('b, 'r) element \<Rightarrow> 'b list" where
  "support x = map fst x"

definition sum_of_terms :: "('b \<times> 'r::ab_group_add) list \<Rightarrow> ('b, 'r) element" where
  "sum_of_terms terms = fold (\<lambda>(i, c) d. dict_accumulate d i c) terms []"

definition add_element ::
  "('b, 'r::ab_group_add) element \<Rightarrow> ('b, 'r) element \<Rightarrow> ('b, 'r) element" where
  "add_element x y = fold (\<lambda>(i, c) d. dict_accumulate d i c) y x"

definition sum_elements :: "('b, 'r::ab_group_add) element list \<Rightarrow> ('b, 'r) element" where
  "sum_elements xs = fold (\<lambda>y acc. add_element acc y) xs []"

definition leading_support :: "('b::linorder, 'r) element \<Rightarrow> error + 'b" where
  "leading_support x =
     (case support x of
        [] \<Rightarrow> Inl (ValueError ''max() arg is an empty sequence'')
      | m # ms \<Rightarrow> Inr (fold max ms m))"

text \<open>
  \<^verbatim>\<open>is_homogeneous\<close>: the loop over the support keeps the first degree seen (\<open>None\<close>
  before the first item) and returns \<^verbatim>\<open>False\<close> at the first different one.
\<close>

fun is_homogeneous_loop :: "('b \<Rightarrow> int) \<Rightarrow> int option \<Rightarrow> 'b list \<Rightarrow> bool" where
  "is_homogeneous_loop degree_on_basis degree [] = True"
| "is_homogeneous_loop degree_on_basis degree (m # ms) =
     (case degree of
        None \<Rightarrow> is_homogeneous_loop degree_on_basis (Some (degree_on_basis m)) ms
      | Some d \<Rightarrow>
          if d \<noteq> degree_on_basis m then False
          else is_homogeneous_loop degree_on_basis degree ms)"

definition is_homogeneous :: "('b \<Rightarrow> int) \<Rightarrow> ('b, 'r) element \<Rightarrow> bool" where
  "is_homogeneous degree_on_basis x = is_homogeneous_loop degree_on_basis None (support x)"

definition degree :: "('b::linorder \<Rightarrow> int) \<Rightarrow> ('b, 'r) element \<Rightarrow> error + int" where
  "degree degree_on_basis x =
     (if support x = [] then
        Inl (ValueError ''the zero element does not have a well-defined degree'')
      else if \<not> is_homogeneous degree_on_basis x then
        Inl (ValueError ''element is not homogeneous'')
      else map_sum id degree_on_basis (leading_support x))"

definition homogeneous_component ::
  "('b \<Rightarrow> int) \<Rightarrow> ('b, 'r::ab_group_add) element \<Rightarrow> int \<Rightarrow> ('b, 'r) element" where
  "homogeneous_component degree_on_basis x n =
     sum_of_terms (filter (\<lambda>(i, c). degree_on_basis i = n) x)"

text \<open>\<^verbatim>\<open>truncate\<close> of the source; the name \<open>truncate\<close> belongs to the record package.\<close>

definition truncate_element ::
  "('b \<Rightarrow> int) \<Rightarrow> ('b, 'r::ab_group_add) element \<Rightarrow> int \<Rightarrow> ('b, 'r) element" where
  "truncate_element degree_on_basis x n =
     sum_of_terms (filter (\<lambda>(i, c). degree_on_basis i < n) x)"

text \<open>
  The specification side: an element is well formed when no key is repeated and no stored
  coefficient is zero; it is homogeneous when all indices of its support have one degree;
  \<open>degrees_below\<close> lists, once each, the degrees below \<open>n\<close> that occur in the support,
  and \<open>degrees_of\<close> all degrees that occur.
\<close>

definition wf_element :: "('b, 'r::zero) element \<Rightarrow> bool" where
  "wf_element x \<longleftrightarrow> distinct (map fst x) \<and> (\<forall>c \<in> set (map snd x). c \<noteq> 0)"

definition homogeneous :: "('b \<Rightarrow> int) \<Rightarrow> ('b, 'r) element \<Rightarrow> bool" where
  "homogeneous degree_on_basis x \<longleftrightarrow>
     (\<forall>i \<in> set (support x). \<forall>j \<in> set (support x). degree_on_basis i = degree_on_basis j)"

definition degrees_of :: "('b \<Rightarrow> int) \<Rightarrow> ('b, 'r) element \<Rightarrow> int list" where
  "degrees_of degree_on_basis x = remdups (map degree_on_basis (support x))"

definition degrees_below :: "('b \<Rightarrow> int) \<Rightarrow> ('b, 'r) element \<Rightarrow> int \<Rightarrow> int list" where
  "degrees_below degree_on_basis x n = filter (\<lambda>d. d < n) (degrees_of degree_on_basis x)"

text \<open>
  The example of the docstrings: the free module on partitions, a partition being the list
  of its parts and its degree their sum; \<open>2*P[] + 2*P[1] + 3*P[2]\<close> is \<open>A_an_element\<close>.
\<close>

definition partition_degree :: "nat list \<Rightarrow> int" where
  "partition_degree p = int (sum_list p)"

definition A_an_element :: "(nat list, int) element" where
  "A_an_element = [([], 2), ([1], 2), ([2], 3)]"

section \<open>Lie algebras given by structure coefficients
  (\<^verbatim>\<open>sage/algebras/lie_algebras/structure_coefficients.py\<close>)\<close>

text \<open>
  The structure coefficients are a dictionary from pairs of basis indices to the
  coefficients of the bracket, given as the items \<open>(g, val)\<close> of a dictionary or as a
  list of such pairs. \<^verbatim>\<open>_standardize_s_coeff\<close> walks over the keys: a key \<open>(a, b)\<close> with
  \<open>a > b\<close> is stored as \<open>(b, a)\<close> with negated values, a key with \<open>a = b\<close> fails the
  assertion, zero values are stripped, two entries for one standardized key must agree
  after sorting, and an entry with no value left is not stored.
\<close>

type_synonym ('i, 'r) s_coeff = "('i \<times> 'i, ('i \<times> 'r) list) dict"

definition standardize_entry ::
  "'i::linorder \<times> 'i \<Rightarrow> ('i \<times> 'r::linordered_idom) list
     \<Rightarrow> error + (('i \<times> 'i) \<times> ('i \<times> 'r) list)" where
  "standardize_entry k v =
     (if fst k > snd k then
        Inr ((snd k, fst k), map (\<lambda>(g, val). (g, - val)) (filter (\<lambda>(g, val). val \<noteq> 0) v))
      else if \<not> fst k < snd k then Inl (AssertionError ''elements not ordered'')
      else Inr (k, filter (\<lambda>(g, val). val \<noteq> 0) v))"

fun standardize_loop ::
  "('i::linorder, 'r::linordered_idom) s_coeff \<Rightarrow> ('i, 'r) s_coeff
     \<Rightarrow> error + ('i, 'r) s_coeff" where
  "standardize_loop [] sc = Inr sc"
| "standardize_loop ((k, v) # rest) sc =
     (case standardize_entry k v of
        Inl e \<Rightarrow> Inl e
      | Inr (key, vals) \<Rightarrow>
          (case map_of sc key of
             None \<Rightarrow> standardize_loop rest (if length vals > 0 then dict_set sc key vals else sc)
           | Some old \<Rightarrow>
               if sort old \<noteq> sort vals then Inl (ValueError ''non-equal brackets'')
               else standardize_loop rest (if length vals > 0 then dict_set sc key vals else sc)))"

definition standardize_s_coeff ::
  "('i::linorder, 'r::linordered_idom) s_coeff \<Rightarrow> error + ('i, 'r) s_coeff" where
  "standardize_s_coeff s_coeff = standardize_loop s_coeff []"

text \<open>
  An element of the Lie algebra is the dictionary of its coefficients. \<^verbatim>\<open>dict(vals)\<close>
  stores the pairs in turn, \<^verbatim>\<open>-val\<close> negates every coefficient, \<^verbatim>\<open>zero()\<close> is the empty
  dictionary.
\<close>

definition dict_of_pairs :: "('k \<times> 'v) list \<Rightarrow> ('k, 'v) dict" where
  "dict_of_pairs pairs = fold (\<lambda>(k, v) d. dict_set d k v) pairs []"

definition neg_element :: "('i, 'r::uminus) element \<Rightarrow> ('i, 'r) element" where
  "neg_element val = map (\<lambda>(g, c). (g, - c)) val"

definition zero_element :: "('i, 'r) element" where
  "zero_element = []"

text \<open>
  \<^verbatim>\<open>__classcall_private__\<close> standardizes the coefficients and chooses the class:
  the abelian Lie algebra when no coefficient is left or when there is at most one
  generator, else the algebra with the coefficients turned into elements by
  \<^verbatim>\<open>__init__\<close>. With \<^verbatim>\<open>names=None\<close> and more than one index, \<^verbatim>\<open>tuple(names)\<close>
  raises TypeError.
\<close>

datatype ('i, 'r) lie_algebra =
    AbelianLieAlgebra "string list option" "'i list option"
  | LieAlgebraWithStructureCoefficients
      "('i \<times> 'i, ('i, 'r) element) dict" "string list" "'i list option"

definition init_s_coeff :: "('i, 'r) s_coeff \<Rightarrow> ('i \<times> 'i, ('i, 'r) element) dict" where
  "init_s_coeff s_coeff = map (\<lambda>(k, vals). (k, dict_of_pairs vals)) s_coeff"

definition classcall_private ::
  "('i::linorder, 'r::linordered_idom) s_coeff \<Rightarrow> string list option \<Rightarrow> 'i list option
     \<Rightarrow> error + ('i, 'r) lie_algebra" where
  "classcall_private s_coeff names index_set =
     (case standardize_s_coeff s_coeff of
        Inl e \<Rightarrow> Inl e
      | Inr sc \<Rightarrow>
          if length sc = 0 then Inr (AbelianLieAlgebra names index_set)
          else
            (case names of
               None \<Rightarrow>
                 (case index_set of
                    None \<Rightarrow>
                      Inl (ValueError ''either the names or the index set must be specified'')
                  | Some ix \<Rightarrow>
                      if length ix \<le> 1 then Inr (AbelianLieAlgebra names index_set)
                      else Inl (TypeError ''NoneType object is not iterable''))
             | Some ns \<Rightarrow>
                 if length ns \<le> 1 then Inr (AbelianLieAlgebra names index_set)
                 else Inr (LieAlgebraWithStructureCoefficients (init_s_coeff sc) ns index_set)))"

text \<open>
  \<^verbatim>\<open>bracket_on_basis\<close> compares the two indices with the comparison function \<open>cmp\<close> of
  the print options (Python's \<^verbatim>\<open>cmp\<close> unless changed), looks the ordered pair up and
  negates the value when it swapped the arguments; a missing key gives zero. The abelian
  class overrides it by zero.
\<close>

definition py_cmp :: "'i::linorder \<Rightarrow> 'i \<Rightarrow> int" where
  "py_cmp x y = (if x < y then - 1 else if x = y then 0 else 1)"

fun bracket_on_basis ::
  "('i \<Rightarrow> 'i \<Rightarrow> int) \<Rightarrow> ('i, 'r::uminus) lie_algebra \<Rightarrow> 'i \<Rightarrow> 'i \<Rightarrow> ('i, 'r) element" where
  "bracket_on_basis cmp (AbelianLieAlgebra names index_set) x y = zero_element"
| "bracket_on_basis cmp (LieAlgebraWithStructureCoefficients s_coeff names index_set) x y =
     (let (x', y', ordered) = (if cmp x y > 0 then (y, x, False) else (x, y, True))
      in case map_of s_coeff (x', y') of
           None \<Rightarrow> zero_element
         | Some val \<Rightarrow> if ordered then val else neg_element val)"

text \<open>The cross product on \<open>\<rat>\<^sup>3\<close> of the class docstring, with its three names.\<close>

definition cross_product_s_coeff :: "(string, rat) s_coeff" where
  "cross_product_s_coeff =
     [((''x'', ''y''), [(''z'', 1)]), ((''y'', ''z''), [(''x'', 1)]), ((''z'', ''x''), [(''y'', 1)])]"

definition cross_product_algebra :: "(string, rat) lie_algebra" where
  "cross_product_algebra =
     LieAlgebraWithStructureCoefficients
       [((''x'', ''y''), [(''z'', 1)]), ((''y'', ''z''), [(''x'', 1)]),
        ((''x'', ''z''), [(''y'', - 1)])]
       [''x'', ''y'', ''z''] None"

section \<open>Weyl algebras (\<^verbatim>\<open>sage/algebras/weyl_algebra.py\<close>)\<close>

text \<open>
  The base ring is the host's polynomial ring: a commutative ring \<open>'a\<close> with its number
  of generators, the test \<^verbatim>\<open>is_constant()\<close> and the partial derivative
  \<^verbatim>\<open>c.derivative(gens[i])\<close> with respect to the \<open>i\<close>-th generator. An element of the
  Weyl algebra is the dictionary \<^verbatim>\<open>__monomials\<close> from exponent tuples of the
  differentials to coefficients in the base ring.
\<close>

record 'a polynomial_ring =
  ngens :: nat
  is_constant :: "'a \<Rightarrow> bool"
  derivative :: "'a \<Rightarrow> nat \<Rightarrow> 'a"

type_synonym 'a weyl_element = "(nat list, 'a) dict"

text \<open>
  \<^verbatim>\<open>expand_derivative(poly, exps)\<close>. The innermost loop runs over a snapshot of the items
  of \<open>d\<close> (\<^verbatim>\<open>d.items()\<close> is a list in Python 2), here in the order of the item list.
  For the item \<open>(m, c)\<close> it adds \<^verbatim>\<open>d[m]\<close> to the entry of \<open>m\<close> with the \<open>i\<close>-th
  exponent raised and replaces the entry of \<open>m\<close> by the derivative of \<open>c\<close>, or deletes
  it when the derivative is zero. \<^verbatim>\<open>gens[i]\<close> raises IndexError beyond the generators
  and \<^verbatim>\<open>d[m]\<close> raises KeyError for a missing key.
\<close>

definition derive_step ::
  "'a::comm_ring_1 polynomial_ring \<Rightarrow> nat \<Rightarrow> nat list \<times> 'a \<Rightarrow> 'a weyl_element
     \<Rightarrow> error + 'a weyl_element" where
  "derive_step R i item d =
     (case item of (m, c) \<Rightarrow>
        let deriv = derivative R c i in
        if \<not> i < length m then Inl IndexError
        else
          let L = m[i := m ! i + 1] in
          (case map_of d m of
             None \<Rightarrow> Inl KeyError
           | Some dm \<Rightarrow>
               let d1 = dict_set d L (dict_get d L 0 + dm)
               in Inr (if deriv = 0 then dict_del d1 m else dict_set d1 m deriv)))"

definition expand_derivative ::
  "'a::comm_ring_1 polynomial_ring \<Rightarrow> 'a \<Rightarrow> nat list \<Rightarrow> error + 'a weyl_element" where
  "expand_derivative R poly exps =
     (if is_constant R poly then Inr [(exps, poly)]
      else
        fold_err
          (\<lambda>(i, p) d.
             if \<not> i < ngens R then Inl IndexError
             else fold_err (\<lambda>j d. fold_err (derive_step R i) d d) [0..<p] d)
          (enumerate 0 exps)
          [(replicate (ngens R) 0, poly)])"

text \<open>
  \<^verbatim>\<open>_lmul_\<close> is the product \<^verbatim>\<open>self * rhs\<close> with \<open>rhs\<close> in the base ring, \<^verbatim>\<open>_rmul_\<close> the
  product \<^verbatim>\<open>lhs * self\<close>, \<^verbatim>\<open>_add_\<close> the sum; \<^verbatim>\<open>gen(i)\<close> raises IndexError when
  \<^verbatim>\<open>L[i] = 1\<close> is out of range.
\<close>

definition lmul ::
  "'a::comm_ring_1 polynomial_ring \<Rightarrow> 'a weyl_element \<Rightarrow> 'a \<Rightarrow> error + 'a weyl_element" where
  "lmul R self rhs =
     fold_err
       (\<lambda>(m, c) d.
          case expand_derivative R rhs m of
            Inl e \<Rightarrow> Inl e
          | Inr expansion \<Rightarrow>
              Inr (fold (\<lambda>(t, coeff) d. dict_accumulate d t (c * coeff)) expansion d))
       self []"

definition rmul :: "'a::comm_ring_1 weyl_element \<Rightarrow> 'a \<Rightarrow> 'a weyl_element" where
  "rmul self lhs = (if lhs = 0 then [] else map (\<lambda>(m, c). (m, lhs * c)) self)"

definition weyl_add :: "'a::comm_ring_1 weyl_element \<Rightarrow> 'a weyl_element \<Rightarrow> 'a weyl_element" where
  "weyl_add self rhs = fold (\<lambda>(m, c) d. dict_accumulate d m c) rhs self"

definition gen :: "'a::comm_ring_1 polynomial_ring \<Rightarrow> nat \<Rightarrow> error + 'a weyl_element" where
  "gen R i =
     (if \<not> i < ngens R then Inl IndexError
      else Inr [((replicate (ngens R) 0)[i := 1], 1)])"

definition weyl_one :: "'a::comm_ring_1 polynomial_ring \<Rightarrow> 'a weyl_element" where
  "weyl_one R = [(replicate (ngens R) 0, 1)]"

text \<open>
  A small base ring for examples: the polynomials \<open>a + b*x\<close> over the integers with
  \<open>x\<^sup>2 = 0\<close>, in one generator; \<open>a + b*x\<close> is constant when \<open>b = 0\<close> and its
  derivative is \<open>b\<close>.
\<close>

datatype linear = Linear int int

fun linear_derivative :: "linear \<Rightarrow> nat \<Rightarrow> linear" where
  "linear_derivative (Linear a b) i = (if i = 0 then Linear b 0 else Linear 0 0)"

fun linear_is_constant :: "linear \<Rightarrow> bool" where
  "linear_is_constant (Linear a b) = (b = 0)"

definition linear_ring :: "linear polynomial_ring" where
  "linear_ring = \<lparr> ngens = 1, is_constant = linear_is_constant, derivative = linear_derivative \<rparr>"

instantiation linear :: comm_ring_1
begin

definition zero_linear :: linear where
  "zero_linear = Linear 0 0"

definition one_linear :: linear where
  "one_linear = Linear 1 0"

fun plus_linear :: "linear \<Rightarrow> linear \<Rightarrow> linear" where
  "plus_linear (Linear a b) (Linear c d) = Linear (a + c) (b + d)"

fun times_linear :: "linear \<Rightarrow> linear \<Rightarrow> linear" where
  "times_linear (Linear a b) (Linear c d) = Linear (a * c) (a * d + b * c)"

fun uminus_linear :: "linear \<Rightarrow> linear" where
  "uminus_linear (Linear a b) = Linear (- a) (- b)"

definition minus_linear :: "linear \<Rightarrow> linear \<Rightarrow> linear" where
  "minus_linear p q = p + - q"

instance
proof
  fix p q r :: linear
  show "p + q + r = p + (q + r)" by (cases p; cases q; cases r) simp
  show "p + q = q + p" by (cases p; cases q) simp
  show "0 + p = p" by (cases p) (simp add: zero_linear_def)
  show "- p + p = 0" by (cases p) (simp add: zero_linear_def)
  show "p - q = p + - q" by (simp add: minus_linear_def)
  show "p * q * r = p * (q * r)" by (cases p; cases q; cases r) (simp add: algebra_simps)
  show "p * q = q * p" by (cases p; cases q) simp
  show "1 * p = p" by (cases p) (simp add: one_linear_def)
  show "(p + q) * r = p * r + q * r" by (cases p; cases q; cases r) (simp add: algebra_simps)
  show "(0::linear) \<noteq> 1" by (simp add: zero_linear_def one_linear_def)
qed

end

section \<open>The transducer of a recursion
  (\<^verbatim>\<open>TransducerGenerators.Recursion\<close> in \<^verbatim>\<open>sage/combinat/finite_state_machine_generators.py\<close>)\<close>

subsection \<open>Rules and the table of residues\<close>

text \<open>
  A parsed recursion \<open>f(base^K*n + r) == f(base^k*n + s) + t\<close> is the named tuple
  \<^verbatim>\<open>Rule(K, r, k, s, t)\<close>; the table \<^verbatim>\<open>residues\<close> holds, for every exponent up to
  \<^verbatim>\<open>max_K\<close> and every residue, \<^verbatim>\<open>None\<close> or a \<^verbatim>\<open>RuleRight(k, s, t)\<close>. The base is a
  positive integer; \<open>K\<close>, \<open>k\<close> and \<open>r\<close> are natural numbers, as the parser leaves them.
\<close>

datatype 't rule = Rule (rule_K: nat) (rule_r: nat) (rule_k: nat) (rule_s: int) (rule_t: 't)

datatype 't rule_right = RuleRight (right_k: nat) (right_s: int) (right_t: 't)

type_synonym 't residues = "'t rule_right option list list"

text \<open>The formatting of the two messages: \<^verbatim>\<open>%d\<close> of a number and \<^verbatim>\<open>%s\<close> of a list.\<close>

fun str_nat :: "nat \<Rightarrow> string" where
  "str_nat n =
     (if n < 10 then [char_of (48 + n)]
      else str_nat (n div 10) @ [char_of (48 + n mod 10)])"

fun str_items :: "nat list \<Rightarrow> string" where
  "str_items [] = []"
| "str_items [n] = str_nat n"
| "str_items (n # ns) = str_nat n @ '', '' @ str_items ns"

definition str_list :: "nat list \<Rightarrow> string" where
  "str_list ns = ''['' @ str_items ns @ '']''"

definition conflicting_message :: "nat \<Rightarrow> nat \<Rightarrow> string" where
  "conflicting_message R modulus =
     ''Conflicting rules congruent to '' @ str_nat R @ '' modulo '' @ str_nat modulus @ ''.''"

definition missing_message :: "nat list \<Rightarrow> nat \<Rightarrow> string" where
  "missing_message missing_residues modulus =
     ''Missing recursions for input congruent to '' @ str_list missing_residues
       @ '' modulo '' @ str_nat modulus @ ''.''"

text \<open>
  The body of the innermost loop: \<^verbatim>\<open>R = rule.r + 2**rule.K * ell\<close>, the test of
  \<^verbatim>\<open>residues[rule.K + m][R]\<close> and the assignment. An index beyond a list raises
  IndexError.
\<close>

definition store_residue ::
  "nat \<Rightarrow> 't rule \<Rightarrow> nat \<Rightarrow> nat \<Rightarrow> 't residues \<Rightarrow> error + 't residues" where
  "store_residue base rule m ell residues =
     (let R = rule_r rule + 2 ^ rule_K rule * ell in
      if \<not> rule_K rule + m < length residues then Inl IndexError
      else if \<not> R < length (residues ! (rule_K rule + m)) then Inl IndexError
      else if residues ! (rule_K rule + m) ! R \<noteq> None then
        Inl (ValueError (conflicting_message R (base ^ (rule_K rule + m))))
      else
        Inr (residues[rule_K rule + m :=
               (residues ! (rule_K rule + m))
                 [R := Some (RuleRight (rule_k rule + m) (rule_s rule * int base ^ m)
                                       (rule_t rule))]]))"

definition expand_rules ::
  "nat \<Rightarrow> nat \<Rightarrow> 't rule list \<Rightarrow> 't residues \<Rightarrow> error + 't residues" where
  "expand_rules base max_K rules residues =
     fold_err
       (\<lambda>rule. fold_err
          (\<lambda>m. fold_err (\<lambda>ell. store_residue base rule m ell) [0..<base ^ m])
          [0..<max_K - rule_K rule + 1])
       rules residues"

text \<open>
  The part of \<^verbatim>\<open>Recursion\<close> between the parsing and the transition function:
  \<^verbatim>\<open>max\<close> of no rule raises ValueError, the table starts with \<^verbatim>\<open>None\<close> everywhere, the
  rules are expanded, and a \<^verbatim>\<open>None\<close> left in \<^verbatim>\<open>residues[max_K]\<close> is a missing residue.
\<close>

definition build_residues :: "nat \<Rightarrow> 't rule list \<Rightarrow> error + 't residues" where
  "build_residues base rules =
     (case rules of
        [] \<Rightarrow> Inl (ValueError ''max() arg is an empty sequence'')
      | rule # others \<Rightarrow>
          let max_K = fold max (map rule_K others) (rule_K rule) in
          (case expand_rules base max_K rules
                  (map (\<lambda>k. replicate (base ^ k) None) [0..<max_K + 1]) of
             Inl e \<Rightarrow> Inl e
           | Inr residues \<Rightarrow>
               let missing_residues =
                     filter (\<lambda>R. residues ! max_K ! R = None) [0..<length (residues ! max_K)]
               in if missing_residues \<noteq> [] then
                    Inl (ValueError (missing_message missing_residues (base ^ max_K)))
                  else Inr residues))"

subsection \<open>The transition function\<close>

text \<open>
  A state is \<open>(carry, look_ahead)\<close>. The carry is a rational number: \<^verbatim>\<open>/\<close> of two
  integers of the host is their exact quotient. \<^verbatim>\<open>current % 2**K\<close> is the remainder of
  the host: of an integer the usual one, of a fraction its numerator times the inverse
  of its denominator modulo \<open>2^K\<close>, with ZeroDivisionError when there is none. The output
  of a transition is the word \<open>[rule.t]\<close> or the empty word.
\<close>

definition rational_mod :: "rat \<Rightarrow> int \<Rightarrow> error + int" where
  "rational_mod x n =
     (let (a, b) = quotient_of x in
      if b = 1 then Inr (a mod n)
      else
        (case find (\<lambda>d. (b * d) mod n = 1 mod n) [0..n - 1] of
           None \<Rightarrow> Inl ZeroDivisionError
         | Some d \<Rightarrow> Inr (((a mod n) * d) mod n)))"

definition transition_function ::
  "nat \<Rightarrow> 't residues \<Rightarrow> rat \<times> nat \<Rightarrow> int
     \<Rightarrow> error + ((rat \<times> nat) \<times> 't list)" where
  "transition_function base residues state input =
     (case state of (carry, look_ahead) \<Rightarrow>
        let current = carry + of_int input * of_nat base ^ look_ahead;
            K = look_ahead + 1
        in (case rational_mod current (2 ^ K) of
              Inl e \<Rightarrow> Inl e
            | Inr R \<Rightarrow>
                if \<not> K < length residues then Inl IndexError
                else if \<not> nat R < length (residues ! K) then Inl IndexError
                else
                  (case residues ! K ! nat R of
                     Some rule \<Rightarrow>
                       let n = (current - of_int R) / of_nat base ^ K;
                           new_carry = n * of_nat base ^ right_k rule + of_int (right_s rule)
                       in Inr ((new_carry, right_k rule), [right_t rule])
                   | None \<Rightarrow> Inr ((current, K), []))))"

subsection \<open>What the equations say\<close>

text \<open>
  A rule covers the residue class of \<open>R\<close> when \<open>R\<close> is congruent to \<open>r\<close> modulo
  \<open>base^K\<close>. The function \<open>f\<close> defined by the rules and the initial values is computed
  by unfolding the equations: \<open>f(m)\<close> is the initial value of \<open>m\<close> when there is one, and
  otherwise \<open>f(base^k*n + s) + t\<close> for the first rule covering \<open>m = base^K*n + r\<close>.
\<close>

definition covers :: "nat \<Rightarrow> 't rule \<Rightarrow> nat \<Rightarrow> bool" where
  "covers base rule R \<longleftrightarrow> R mod base ^ rule_K rule = rule_r rule"

fun recursion_value ::
  "nat \<Rightarrow> nat \<Rightarrow> int rule list \<Rightarrow> (int \<times> int) list \<Rightarrow> int \<Rightarrow> int option" where
  "recursion_value 0 base rules initial_values m = None"
| "recursion_value (Suc fuel) base rules initial_values m =
     (case map_of initial_values m of
        Some v \<Rightarrow> Some v
      | None \<Rightarrow>
          if m < 0 then None
          else
            (case find (\<lambda>rule. covers base rule (nat m)) rules of
               None \<Rightarrow> None
             | Some rule \<Rightarrow>
                 map_option (\<lambda>v. v + rule_t rule)
                   (recursion_value fuel base rules initial_values
                      (int base ^ rule_k rule * (m div int base ^ rule_K rule) + rule_s rule))))"

text \<open>
  Examples: the sum of digits in base 2 of the docstring and the same recursion in base 3,
  \<open>f(3n) = f(n)\<close>, \<open>f(3n + 1) = f(n) + 1\<close>, \<open>f(3n + 2) = f(n) + 2\<close>, \<open>f(0) = 0\<close>; and a set
  of rules in base 3 with two exponents, \<open>f(3n) = f(n)\<close>, \<open>f(3n + 1) = f(n) + 1\<close>,
  \<open>f(9n + 6) = f(n) + 2\<close>, \<open>f(9n + 7) = f(n) + 3\<close>, \<open>f(9n + 8) = f(n) + 4\<close>.
\<close>

definition binary_digit_sum_rules :: "int rule list" where
  "binary_digit_sum_rules = [Rule 1 1 0 0 1, Rule 1 0 0 0 0]"

definition ternary_digit_sum_rules :: "int rule list" where
  "ternary_digit_sum_rules = [Rule 1 0 0 0 0, Rule 1 1 0 0 1, Rule 1 2 0 0 2]"

definition ternary_mixed_rules :: "int rule list" where
  "ternary_mixed_rules =
     [Rule 1 0 0 0 0, Rule 1 1 0 0 1, Rule 2 6 0 0 2, Rule 2 7 0 0 3, Rule 2 8 0 0 4]"

subsection \<open>Parsing the equations\<close>

text \<open>
  The equations are symbolic expressions of the host: a number, a symbol, an operator
  applied to operands, or a relation between two sides. \<^verbatim>\<open>operator()\<close> is \<^verbatim>\<open>None\<close> for a
  number and for a symbol; a symbolic function such as \<open>f\<close> or \<open>sin\<close> is the operator of
  its evaluation.
\<close>

datatype relation = Eq | Ne | Lt | Le

datatype oper = Add | Mul | Pow | Function string


datatype expr =
    Number rat
  | Variable string
  | Apply oper "expr list"
  | Relation relation expr expr











text \<open>
  \<^verbatim>\<open>log(c, base=base)\<close> followed by the test \<^verbatim>\<open>K not in ZZ\<close>: the logarithm of an
  integer coefficient is an integer exactly when the coefficient is a power of the base,
  and the exponent is then smaller than the coefficient.
\<close>

definition log_in_ZZ :: "nat \<Rightarrow> int \<Rightarrow> nat option" where
  "log_in_ZZ base c = find (\<lambda>K. int base ^ K = c) [0..<nat c]"









subsection \<open>The admissible equations\<close>








definition equation_f0 :: expr where
  "equation_f0 = Relation Eq (Apply (Function ''f'') [Number 0]) (Number 0)"



section \<open>Properties of loops that can raise\<close>

lemma fold_err_append:
  "fold_err f (xs @ ys) s =
     (case fold_err f xs s of Inl e \<Rightarrow> Inl e | Inr s' \<Rightarrow> fold_err f ys s')"
  by (induction xs arbitrary: s) (auto split: sum.splits)

section \<open>Properties of dictionaries\<close>

lemma dict_get_set: "dict_get (dict_set d t v) k dflt = (if k = t then v else dict_get d k dflt)"
  by (simp add: dict_get_def dict_set_def update_conv')

lemma dict_get_del: "dict_get (dict_del d t) k dflt = (if k = t then dflt else dict_get d k dflt)"
  by (simp add: dict_get_def dict_del_def delete_conv')

lemma dict_accumulate_get:
  "dict_get (dict_accumulate d t x) k 0 = dict_get d k 0 + (if k = t then x else 0)"
  by (simp add: dict_accumulate_def Let_def dict_get_set dict_get_del)

lemma map_of_dict_accumulate:
  "map_of (dict_accumulate d t x) =
     (if dict_get d t 0 + x = 0 then (map_of d)(t := None)
      else (map_of d)(t \<mapsto> dict_get d t 0 + x))"
proof -
  have "dict_get (dict_set d t (dict_get d t 0 + x)) t 0 = dict_get d t 0 + x"
    by (simp add: dict_get_set)
  then show ?thesis
    by (simp add: dict_accumulate_def Let_def dict_set_def dict_del_def update_conv' delete_conv')
qed

lemma dict_accumulate_nonzero:
  "nonzero_values d \<Longrightarrow> nonzero_values (dict_accumulate d t x)"
  by (simp add: nonzero_values_def map_of_dict_accumulate)

lemma dict_get_Nil: "dict_get [] k dflt = dflt"
  by (simp add: dict_get_def)

lemma nonzero_values_Nil: "nonzero_values []"
  by (simp add: nonzero_values_def)

lemma map_of_from_get:
  "nonzero_values d \<Longrightarrow>
   map_of d k = (if dict_get d k 0 = 0 then None else Some (dict_get d k 0))"
  by (cases "map_of d k") (auto simp: nonzero_values_def dict_get_def)

lemma dict_eq_from_get:
  assumes "nonzero_values d" and "nonzero_values d'"
    and "\<And>k. dict_get d k 0 = dict_get d' k 0"
  shows "dict_eq d d'"
  unfolding dict_eq_def
  by (rule ext) (simp add: map_of_from_get assms)

lemma fold_accumulate_get:
  "dict_get (fold (\<lambda>(i, c) d. dict_accumulate d i c) ts d0) k 0
     = dict_get d0 k 0 + sum_list (map snd (filter (\<lambda>t. fst t = k) ts))"
proof (induction ts arbitrary: d0)
  case Nil
  then show ?case by simp
next
  case (Cons t ts)
  obtain i c where t: "t = (i, c)" by (cases t)
  show ?case by (simp add: t Cons.IH dict_accumulate_get add.assoc)
qed

lemma fold_accumulate_nonzero:
  "nonzero_values d0 \<Longrightarrow> nonzero_values (fold (\<lambda>(i, c) d. dict_accumulate d i c) ts d0)"
proof (induction ts arbitrary: d0)
  case Nil
  then show ?case by simp
next
  case (Cons t ts)
  obtain i c where t: "t = (i, c)" by (cases t)
  show ?case using Cons.prems by (simp add: t Cons.IH dict_accumulate_nonzero)
qed

lemma dict_accumulate_Nil:
  "dict_accumulate [] t x = (if x = 0 then [] else [(t, x)])"
  by (simp add: dict_accumulate_def dict_set_def dict_get_def dict_del_def)

lemma dict_accumulate_other:
  "t \<noteq> k \<Longrightarrow> x \<noteq> 0 \<Longrightarrow> dict_accumulate [(k, v)] t x = [(k, v), (t, x)]"
  by (simp add: dict_accumulate_def dict_set_def dict_get_def dict_del_def)

section \<open>Properties of the graph paths\<close>

subsection \<open>More fuel never changes a result\<close>

lemma outgoing_loop_mono:
  "(\<And>u ps. r1 u = Some ps \<Longrightarrow> r2 u = Some ps) \<Longrightarrow>
   outgoing_loop r1 v es sp = Some qs \<Longrightarrow> outgoing_loop r2 v es sp = Some qs"
  by (induction es arbitrary: sp) (auto split: option.splits)

lemma outgoing_paths_Suc:
  "outgoing_paths n g v = Some ps \<Longrightarrow> outgoing_paths (Suc n) g v = Some ps"
proof (induction n arbitrary: v ps)
  case 0
  then show ?case by simp
next
  case (Suc n)
  from Suc.prems have "outgoing_loop (outgoing_paths n g) v (outgoing_edges g v) [[v]] = Some ps"
    by simp
  then have "outgoing_loop (outgoing_paths (Suc n) g) v (outgoing_edges g v) [[v]] = Some ps"
    by (rule outgoing_loop_mono [rotated]) (rule Suc.IH)
  then show ?case by simp
qed

lemma outgoing_paths_le:
  "n \<le> m \<Longrightarrow> outgoing_paths n g v = Some ps \<Longrightarrow> outgoing_paths m g v = Some ps"
  by (induction m) (auto simp: le_Suc_eq dest: outgoing_paths_Suc simp del: outgoing_paths.simps)

lemma outgoing_loop_Some:
  "\<forall>e \<in> set es. rec (edge_target e) \<noteq> None \<Longrightarrow> outgoing_loop rec v es sp \<noteq> None"
  by (induction es arbitrary: sp) (auto split: option.splits)

lemma outgoing_loop_None:
  "\<exists>e \<in> set es. rec (edge_target e) = None \<Longrightarrow> outgoing_loop rec v es sp = None"
  by (induction es arbitrary: sp) (auto split: option.splits)

lemma common_fuel:
  fixes f :: "nat \<Rightarrow> 'u \<Rightarrow> 'r option"
  assumes mono: "\<And>n m u ps. n \<le> m \<Longrightarrow> f n u = Some ps \<Longrightarrow> f m u = Some ps"
    and ex: "\<forall>u \<in> set us. \<exists>n ps. f n u = Some ps"
  shows "\<exists>N. \<forall>u \<in> set us. f N u \<noteq> None"
  using ex
proof (induction us)
  case Nil
  then show ?case by simp
next
  case (Cons u us)
  then obtain N where N: "\<forall>u \<in> set us. f N u \<noteq> None" by auto
  from Cons.prems obtain n ps where n: "f n u = Some ps" by auto
  have le1: "n \<le> max n N" and le2: "N \<le> max n N" by simp_all
  have "f (max n N) u \<noteq> None" using mono [OF le1 n] by simp
  moreover have "\<forall>w \<in> set us. f (max n N) w \<noteq> None"
  proof
    fix w assume "w \<in> set us"
    with N obtain qs where "f N w = Some qs" by auto
    from mono [OF le2 this] show "f (max n N) w \<noteq> None" by simp
  qed
  ultimately show ?case by auto
qed

lemma outgoing_paths_terminates:
  assumes "acyclic (edge_rel g)"
  shows "\<exists>n ps. outgoing_paths n g v = Some ps"
proof -
  have "finite (edge_rel g)" by (simp add: edge_rel_def)
  then have "wf ((edge_rel g)\<inverse>)" using assms by (rule finite_acyclic_wf_converse)
  then show ?thesis
  proof (induction v rule: wf_induct_rule)
    case (less v)
    have "\<forall>u \<in> set (map edge_target (outgoing_edges g v)). \<exists>n ps. outgoing_paths n g u = Some ps"
    proof
      fix u assume "u \<in> set (map edge_target (outgoing_edges g v))"
      then have "(v, u) \<in> edge_rel g" by (auto simp: outgoing_edges_def edge_rel_def)
      then show "\<exists>n ps. outgoing_paths n g u = Some ps" using less by simp
    qed
    then have "\<exists>N. \<forall>u \<in> set (map edge_target (outgoing_edges g v)). outgoing_paths N g u \<noteq> None"
      by (rule common_fuel [where f = "\<lambda>n. outgoing_paths n g", rotated]) (rule outgoing_paths_le)
    then obtain N where "\<forall>u \<in> set (map edge_target (outgoing_edges g v)). outgoing_paths N g u \<noteq> None" ..
    then have "outgoing_paths (Suc N) g v \<noteq> None"
      by (simp add: outgoing_loop_Some)
    then show ?case by blast
  qed
qed

lemma incoming_loop_mono:
  "(\<And>u ps. r1 u = Some ps \<Longrightarrow> r2 u = Some ps) \<Longrightarrow>
   incoming_loop r1 v es tp = Some qs \<Longrightarrow> incoming_loop r2 v es tp = Some qs"
  by (induction es arbitrary: tp) (auto split: option.splits)

lemma incoming_paths_Suc:
  "incoming_paths n g v = Some ps \<Longrightarrow> incoming_paths (Suc n) g v = Some ps"
proof (induction n arbitrary: v ps)
  case 0
  then show ?case by simp
next
  case (Suc n)
  from Suc.prems have "incoming_loop (incoming_paths n g) v (incoming_edges g v) [[v]] = Some ps"
    by simp
  then have "incoming_loop (incoming_paths (Suc n) g) v (incoming_edges g v) [[v]] = Some ps"
    by (rule incoming_loop_mono [rotated]) (rule Suc.IH)
  then show ?case by simp
qed

lemma incoming_paths_le:
  "n \<le> m \<Longrightarrow> incoming_paths n g v = Some ps \<Longrightarrow> incoming_paths m g v = Some ps"
  by (induction m) (auto simp: le_Suc_eq dest: incoming_paths_Suc simp del: incoming_paths.simps)

lemma incoming_loop_Some:
  "\<forall>e \<in> set es. rec (edge_source e) \<noteq> None \<Longrightarrow> incoming_loop rec v es tp \<noteq> None"
  by (induction es arbitrary: tp) (auto split: option.splits)

lemma incoming_loop_None:
  "\<exists>e \<in> set es. rec (edge_source e) = None \<Longrightarrow> incoming_loop rec v es tp = None"
  by (induction es arbitrary: tp) (auto split: option.splits)

lemma incoming_paths_terminates:
  assumes "acyclic (edge_rel g)"
  shows "\<exists>n ps. incoming_paths n g v = Some ps"
proof -
  have "finite (edge_rel g)" by (simp add: edge_rel_def)
  then have "wf (edge_rel g)" using assms by (rule finite_acyclic_wf)
  then show ?thesis
  proof (induction v rule: wf_induct_rule)
    case (less v)
    have "\<forall>u \<in> set (map edge_source (incoming_edges g v)). \<exists>n ps. incoming_paths n g u = Some ps"
    proof
      fix u assume "u \<in> set (map edge_source (incoming_edges g v))"
      then have "(u, v) \<in> edge_rel g" by (auto simp: incoming_edges_def edge_rel_def)
      then show "\<exists>n ps. incoming_paths n g u = Some ps" using less by simp
    qed
    then have "\<exists>N. \<forall>u \<in> set (map edge_source (incoming_edges g v)). incoming_paths N g u \<noteq> None"
      by (rule common_fuel [where f = "\<lambda>n. incoming_paths n g", rotated]) (rule incoming_paths_le)
    then obtain N where "\<forall>u \<in> set (map edge_source (incoming_edges g v)). incoming_paths N g u \<noteq> None" ..
    then have "incoming_paths (Suc N) g v \<noteq> None"
      by (simp add: incoming_loop_Some)
    then show ?case by blast
  qed
qed

lemma paths_loop_mono:
  "(\<And>u ps. r1 u = Some ps \<Longrightarrow> r2 u = Some ps) \<Longrightarrow>
   paths_loop r1 vs acc = Some qs \<Longrightarrow> paths_loop r2 vs acc = Some qs"
  by (induction vs arbitrary: acc) (auto split: option.splits)

lemma paths_le: "n \<le> m \<Longrightarrow> paths n g = Some ps \<Longrightarrow> paths m g = Some ps"
  unfolding paths_def by (erule paths_loop_mono [rotated]) (rule outgoing_paths_le)

lemma paths_loop_Some:
  "\<forall>u \<in> set vs. rec u \<noteq> None \<Longrightarrow> paths_loop rec vs acc \<noteq> None"
  by (induction vs arbitrary: acc) (auto split: option.splits)

lemma paths_terminates:
  assumes "acyclic (edge_rel g)"
  shows "\<exists>n ps. paths n g = Some ps"
proof -
  have "\<forall>u \<in> set (vertices g). \<exists>n ps. outgoing_paths n g u = Some ps"
    using outgoing_paths_terminates [OF assms] by blast
  then have "\<exists>N. \<forall>u \<in> set (vertices g). outgoing_paths N g u \<noteq> None"
    by (rule common_fuel [where f = "\<lambda>n. outgoing_paths n g", rotated]) (rule outgoing_paths_le)
  then obtain N where "\<forall>u \<in> set (vertices g). outgoing_paths N g u \<noteq> None" ..
  then have "paths N g \<noteq> None" by (simp add: paths_def paths_loop_Some)
  then show ?thesis by blast
qed

text \<open>Every path produced starts with its first vertex: no path is empty.\<close>

lemma outgoing_loop_nonempty:
  "outgoing_loop rec v es sp = Some ps \<Longrightarrow> [] \<notin> set sp \<Longrightarrow> [] \<notin> set ps"
proof (induction es arbitrary: sp)
  case Nil
  then show ?case by simp
next
  case (Cons e es)
  from Cons.prems(1) obtain tp
    where run: "outgoing_loop rec v es (sp @ map (\<lambda>path. v # path) tp) = Some ps"
    by (auto split: option.splits)
  have "[] \<notin> set (sp @ map (\<lambda>path. v # path) tp)" using Cons.prems(2) by auto
  with run show ?case by (rule Cons.IH)
qed

lemma outgoing_paths_nonempty: "outgoing_paths n g v = Some ps \<Longrightarrow> [] \<notin> set ps"
  by (cases n) (auto dest: outgoing_loop_nonempty)

lemma select_target_Inr:
  "[] \<notin> set ps \<Longrightarrow> select_target t ps acc = Inr (acc @ filter (\<lambda>p. last p = t) ps)"
  by (induction ps arbitrary: acc) auto

lemma stable_from:
  fixes f :: "nat \<Rightarrow> 'r option"
  assumes "\<And>n m r. n \<le> m \<Longrightarrow> f n = Some r \<Longrightarrow> f m = Some r" and "f n = Some r"
  shows "\<exists>n. \<forall>m\<ge>n. f m = Some r"
  using assms by blast

lemma nth_filter_indices:
  "map (\<lambda>i. xs ! i) (filter (\<lambda>i. P (xs ! i)) [0..<length xs]) = filter P xs"
proof (induction xs rule: rev_induct)
  case Nil
  then show ?case by simp
next
  case (snoc x xs)
  have "map (\<lambda>i. (xs @ [x]) ! i) (filter (\<lambda>i. P ((xs @ [x]) ! i)) [0..<length xs])
      = map (\<lambda>i. xs ! i) (filter (\<lambda>i. P (xs ! i)) [0..<length xs])"
    by (auto simp: nth_append intro!: map_cong filter_cong)
  with snoc show ?case by (simp add: nth_append)
qed

lemma outgoing_edges_indices:
  "map (\<lambda>i. edges g ! i) (out_indices g v) = outgoing_edges g v"
  unfolding out_indices_def outgoing_edges_def by (rule nth_filter_indices)

lemma walk_vertices_Nil: "walk_vertices g v [] = [v]"
  by (simp add: walk_vertices_def)

lemma walk_vertices_Cons:
  "walk_vertices g v (j # w) = v # walk_vertices g (edge_target (edges g ! j)) w"
  by (simp add: walk_vertices_def)

lemma outgoing_loop_walks:
  assumes "\<And>u. rp u = map_option (map (walk_vertices g u)) (rw u)"
  shows "outgoing_loop rp v (map (\<lambda>i. edges g ! i) js) (map (walk_vertices g v) acc)
       = map_option (map (walk_vertices g v)) (walks_loop rw g js acc)"
proof (induction js arbitrary: acc)
  case Nil
  then show ?case by simp
next
  case (Cons j js)
  show ?case
  proof (cases "rw (edge_target (edges g ! j))")
    case None
    then show ?thesis by (simp add: assms)
  next
    case (Some ws)
    have eq: "map (\<lambda>path. v # path) (map (walk_vertices g (edge_target (edges g ! j))) ws)
        = map (walk_vertices g v) (map (\<lambda>w. j # w) ws)"
      by (simp add: walk_vertices_Cons)
    have "outgoing_loop rp v (map (\<lambda>i. edges g ! i) (j # js)) (map (walk_vertices g v) acc)
        = outgoing_loop rp v (map (\<lambda>i. edges g ! i) js)
            (map (walk_vertices g v) acc
             @ map (\<lambda>path. v # path) (map (walk_vertices g (edge_target (edges g ! j))) ws))"
      using Some by (simp add: assms)
    also have "\<dots> = outgoing_loop rp v (map (\<lambda>i. edges g ! i) js)
            (map (walk_vertices g v) (acc @ map (\<lambda>w. j # w) ws))"
      by (simp only: eq map_append)
    also have "\<dots> = map_option (map (walk_vertices g v))
            (walks_loop rw g js (acc @ map (\<lambda>w. j # w) ws))"
      by (rule Cons.IH)
    also have "\<dots> = map_option (map (walk_vertices g v)) (walks_loop rw g (j # js) acc)"
      using Some by simp
    finally show ?thesis .
  qed
qed

lemma outgoing_paths_walks:
  "outgoing_paths n g v = map_option (map (walk_vertices g v)) (outgoing_walks n g v)"
proof (induction n arbitrary: v)
  case 0
  then show ?case by simp
next
  case (Suc n)
  have "outgoing_loop (outgoing_paths n g) v (map (\<lambda>i. edges g ! i) (out_indices g v))
          (map (walk_vertices g v) [[]])
      = map_option (map (walk_vertices g v))
          (walks_loop (outgoing_walks n g) g (out_indices g v) [[]])"
    by (rule outgoing_loop_walks) (rule Suc.IH)
  then show ?case by (simp add: outgoing_edges_indices walk_vertices_Nil)
qed

lemma walks_from_unfold:
  "walks_from g v = insert [] {j # w | j w. j \<in> set (out_indices g v)
                                   \<and> w \<in> walks_from g (edge_target (edges g ! j))}"
proof (rule set_eqI)
  fix w
  show "w \<in> walks_from g v \<longleftrightarrow>
        w \<in> insert [] {j # w | j w. j \<in> set (out_indices g v)
                                   \<and> w \<in> walks_from g (edge_target (edges g ! j))}"
    by (cases w) (auto simp: walks_from_def out_indices_def)
qed

lemma walks_loop_enumerates:
  assumes rec: "\<And>j ws. j \<in> set js \<Longrightarrow> rec (edge_target (edges g ! j)) = Some ws \<Longrightarrow>
                 distinct ws \<and> set ws = walks_from g (edge_target (edges g ! j))"
    and run: "walks_loop rec g js acc = Some out"
    and dj: "distinct js" and da: "distinct acc"
    and fresh: "\<And>w. w \<in> set acc \<Longrightarrow> w = [] \<or> hd w \<notin> set js"
  shows "distinct out \<and>
         set out = set acc \<union> {j # w | j w. j \<in> set js
                                   \<and> w \<in> walks_from g (edge_target (edges g ! j))}"
  using assms
proof (induction js arbitrary: acc)
  case Nil
  then show ?case by simp
next
  case (Cons j js)
  from Cons.prems(2) obtain ws where ws: "rec (edge_target (edges g ! j)) = Some ws"
    and run': "walks_loop rec g js (acc @ map (\<lambda>w. j # w) ws) = Some out"
    by (auto split: option.splits)
  from Cons.prems(1) [OF _ ws] have dws: "distinct ws"
    and sws: "set ws = walks_from g (edge_target (edges g ! j))" by simp_all
  have nj: "j # x \<notin> set acc" for x using Cons.prems(5) [of "j # x"] by auto
  have d': "distinct (acc @ map (\<lambda>w. j # w) ws)"
    using Cons.prems(4) dws nj by (auto simp: distinct_map inj_on_def)
  have f': "\<And>w. w \<in> set (acc @ map (\<lambda>w. j # w) ws) \<Longrightarrow> w = [] \<or> hd w \<notin> set js"
    using Cons.prems(5) Cons.prems(3) by auto
  have r': "distinct ws \<and> set ws = walks_from g (edge_target (edges g ! i))"
    if "i \<in> set js" and "rec (edge_target (edges g ! i)) = Some ws" for i ws
    using Cons.prems(1) [of i ws] that by simp
  from Cons.prems(3) have dj': "distinct js" by simp
  from Cons.IH [OF r' run' dj' d' f']
  have "distinct out" and
    "set out = set (acc @ map (\<lambda>w. j # w) ws) \<union>
       {i # w | i w. i \<in> set js \<and> w \<in> walks_from g (edge_target (edges g ! i))}"
    by simp_all
  then show ?case using sws by auto
qed

lemma outgoing_walks_enumerates:
  "outgoing_walks n g v = Some ws \<Longrightarrow> distinct ws \<and> set ws = walks_from g v"
proof (induction n arbitrary: v ws)
  case 0
  then show ?case by simp
next
  case (Suc n)
  from Suc.prems
  have run: "walks_loop (outgoing_walks n g) g (out_indices g v) [[]] = Some ws" by simp
  have "distinct ws \<and>
        set ws = set [[]] \<union> {j # w | j w. j \<in> set (out_indices g v)
                                   \<and> w \<in> walks_from g (edge_target (edges g ! j))}"
    by (rule walks_loop_enumerates [OF _ run]) (auto simp: out_indices_def Suc.IH)
  then show ?case by (simp add: walks_from_unfold [of g v])
qed

lemma is_walk_last: "is_walk g u w t \<Longrightarrow> last (walk_vertices g u w) = t"
  by (induction w arbitrary: u) (auto simp: walk_vertices_def)

lemma is_walk_iff_last:
  "is_walk g u w t \<longleftrightarrow> w \<in> walks_from g u \<and> last (walk_vertices g u w) = t"
  unfolding walks_from_def using is_walk_last by fastforce

lemma outgoing_paths_stable:
  assumes "acyclic (edge_rel g)"
  shows "\<exists>n ps. \<forall>m\<ge>n. outgoing_paths m g v = Some ps"
proof -
  from outgoing_paths_terminates [OF assms] obtain n ps
    where "outgoing_paths n g v = Some ps" by blast
  then have "\<forall>m\<ge>n. outgoing_paths m g v = Some ps" by (blast intro: outgoing_paths_le)
  then show ?thesis by blast
qed

lemma incoming_paths_stable:
  assumes "acyclic (edge_rel g)"
  shows "\<exists>n ps. \<forall>m\<ge>n. incoming_paths m g v = Some ps"
proof -
  from incoming_paths_terminates [OF assms] obtain n ps
    where "incoming_paths n g v = Some ps" by blast
  then have "\<forall>m\<ge>n. incoming_paths m g v = Some ps" by (blast intro: incoming_paths_le)
  then show ?thesis by blast
qed

lemma paths_stable:
  assumes "acyclic (edge_rel g)"
  shows "\<exists>n ps. \<forall>m\<ge>n. paths m g = Some ps"
proof -
  from paths_terminates [OF assms] obtain n ps where "paths n g = Some ps" by blast
  then have "\<forall>m\<ge>n. paths m g = Some ps" by (blast intro: paths_le)
  then show ?thesis by blast
qed

lemma paths_from_source_to_target_eq:
  "outgoing_paths m g s = Some ps \<Longrightarrow>
   paths_from_source_to_target m g s t = Some (Inr (filter (\<lambda>p. last p = t) ps))"
  by (simp add: paths_from_source_to_target_def select_target_Inr outgoing_paths_nonempty)

lemma list_paths_stable:
  assumes "acyclic (edge_rel (graph_attr p))"
  shows "\<exists>n ps. \<forall>m\<ge>n. list_paths m p = Some (Inr ps)"
proof (cases p)
  case (GraphPaths_all g)
  with paths_stable [of g] assms show ?thesis by fastforce
next
  case (GraphPaths_s g s)
  with outgoing_paths_stable [of g s] assms show ?thesis by fastforce
next
  case (GraphPaths_t g t)
  with incoming_paths_stable [of g t] assms show ?thesis by fastforce
next
  case (GraphPaths_st g s t)
  with assms obtain n ps where "\<forall>m\<ge>n. outgoing_paths m g s = Some ps"
    using outgoing_paths_stable [of g s] by auto
  then have "\<forall>m\<ge>n. list_paths m p = Some (Inr (filter (\<lambda>p. last p = t) ps))"
    using GraphPaths_st by (simp add: paths_from_source_to_target_eq)
  then show ?thesis by blast
qed

lemma cycle_successor:
  assumes "(u, u) \<in> r\<^sup>+"
  shows "\<exists>w. (u, w) \<in> r \<and> (w, w) \<in> r\<^sup>+"
proof -
  from tranclD [OF assms] obtain w where "(u, w) \<in> r" and "(w, u) \<in> r\<^sup>*" by blast
  then have "(w, w) \<in> r\<^sup>+" by (blast intro: rtrancl_into_trancl1)
  with \<open>(u, w) \<in> r\<close> show ?thesis by blast
qed

lemma cycle_predecessor:
  assumes "(u, u) \<in> r\<^sup>+"
  shows "\<exists>w. (w, u) \<in> r \<and> (w, w) \<in> r\<^sup>+"
proof -
  from tranclD2 [OF assms] obtain w where "(u, w) \<in> r\<^sup>*" and "(w, u) \<in> r" by blast
  then have "(w, w) \<in> r\<^sup>+" by (blast intro: rtrancl_into_trancl2)
  with \<open>(w, u) \<in> r\<close> show ?thesis by blast
qed

lemma outgoing_paths_on_cycle:
  "(u, u) \<in> (edge_rel g)\<^sup>+ \<Longrightarrow> outgoing_paths n g u = None"
proof (induction n arbitrary: u)
  case 0
  then show ?case by simp
next
  case (Suc n)
  from cycle_successor [OF Suc.prems] obtain w
    where e: "(u, w) \<in> edge_rel g" and c: "(w, w) \<in> (edge_rel g)\<^sup>+" by blast
  from e obtain ed where "ed \<in> set (outgoing_edges g u)" and "edge_target ed = w"
    by (auto simp: edge_rel_def outgoing_edges_def)
  with Suc.IH [OF c]
  have "\<exists>e \<in> set (outgoing_edges g u). outgoing_paths n g (edge_target e) = None" by auto
  then show ?case by (simp add: outgoing_loop_None)
qed

lemma incoming_paths_on_cycle:
  "(u, u) \<in> (edge_rel g)\<^sup>+ \<Longrightarrow> incoming_paths n g u = None"
proof (induction n arbitrary: u)
  case 0
  then show ?case by simp
next
  case (Suc n)
  from cycle_predecessor [OF Suc.prems] obtain w
    where e: "(w, u) \<in> edge_rel g" and c: "(w, w) \<in> (edge_rel g)\<^sup>+" by blast
  from e obtain ed where "ed \<in> set (incoming_edges g u)" and "edge_source ed = w"
    by (auto simp: edge_rel_def incoming_edges_def)
  with Suc.IH [OF c]
  have "\<exists>e \<in> set (incoming_edges g u). incoming_paths n g (edge_source e) = None" by auto
  then show ?case by (simp add: incoming_loop_None)
qed

lemma G_example_acyclic: "acyclic (edge_rel G_example)"
proof (rule acyclicI_order [where f = "\<lambda>v. 10 - v"])
  fix a b :: nat
  assume "(a, b) \<in> edge_rel G_example"
  then show "10 - b < 10 - a"
    by (auto simp: edge_rel_def G_example_def edge_source_def edge_target_def)
qed

lemma G_loop_cyclic: "\<not> acyclic (edge_rel G_loop)"
proof -
  have "(1, 2) \<in> edge_rel G_loop" and "(2, 1) \<in> edge_rel G_loop"
    by (auto simp: edge_rel_def G_loop_def edge_source_def edge_target_def image_iff)
  then have "(1, 1) \<in> (edge_rel G_loop)\<^sup>+" by (blast intro: trancl.intros)
  then show ?thesis by (auto simp: acyclic_def)
qed

subsection \<open>Termination\<close>

text \<open>
  C9. On a finite directed graph with no directed cycle, \<^verbatim>\<open>outgoing_paths(v)\<close> and
  \<^verbatim>\<open>incoming_paths(v)\<close> return for every vertex \<open>v\<close>: some recursion depth is enough,
  and every larger one gives the same list. Hence \<^verbatim>\<open>list()\<close> and \<^verbatim>\<open>count()\<close> of each
  of the four classes return, \<^verbatim>\<open>count()\<close> being the length of the list. The recursion is
  well-founded exactly on acyclic graphs: when the graph has a directed cycle, some vertex
  exhausts every recursion depth.
\<close>

theorem paths_terminate_iff_acyclic:
  "(acyclic (edge_rel g) \<longrightarrow>
      (\<exists>n ps. \<forall>m\<ge>n. outgoing_paths m g v = Some ps)
    \<and> (\<exists>n ps. \<forall>m\<ge>n. incoming_paths m g v = Some ps)
    \<and> (graph_attr p = g \<longrightarrow>
         (\<exists>n ps. \<forall>m\<ge>n. list_paths m p = Some (Inr ps)
                        \<and> count_paths m p = Some (Inr (length ps)))))
   \<and> (\<not> acyclic (edge_rel g') \<longrightarrow>
         (\<exists>u. \<forall>n. outgoing_paths n g' u = None \<and> incoming_paths n g' u = None))"
proof (intro conjI impI)
  assume "acyclic (edge_rel g)"
  then show "\<exists>n ps. \<forall>m\<ge>n. outgoing_paths m g v = Some ps" by (rule outgoing_paths_stable)
next
  assume "acyclic (edge_rel g)"
  then show "\<exists>n ps. \<forall>m\<ge>n. incoming_paths m g v = Some ps" by (rule incoming_paths_stable)
next
  assume "acyclic (edge_rel g)" and "graph_attr p = g"
  then obtain n ps where "\<forall>m\<ge>n. list_paths m p = Some (Inr ps)"
    using list_paths_stable [of p] by auto
  then have "\<forall>m\<ge>n. list_paths m p = Some (Inr ps)
                \<and> count_paths m p = Some (Inr (length ps))"
    by (simp add: count_paths_def)
  then show "\<exists>n ps. \<forall>m\<ge>n. list_paths m p = Some (Inr ps)
                        \<and> count_paths m p = Some (Inr (length ps))"
    by blast
next
  assume "\<not> acyclic (edge_rel g')"
  then obtain u where "(u, u) \<in> (edge_rel g')\<^sup>+" by (auto simp: acyclic_def)
  then have "\<forall>n. outgoing_paths n g' u = None \<and> incoming_paths n g' u = None"
    by (simp add: outgoing_paths_on_cycle incoming_paths_on_cycle)
  then show "\<exists>u. \<forall>n. outgoing_paths n g' u = None \<and> incoming_paths n g' u = None" ..
qed

theorem paths_terminate_iff_acyclic_witness:
  "acyclic (edge_rel G_example)
   \<and> (\<exists>n ps. \<forall>m\<ge>n. outgoing_paths m G_example 1 = Some ps)
   \<and> (\<exists>n ps. \<forall>m\<ge>n. incoming_paths m G_example 1 = Some ps)
   \<and> graph_attr (GraphPaths_all G_example) = G_example
   \<and> (\<exists>n ps. \<forall>m\<ge>n. list_paths m (GraphPaths_all G_example) = Some (Inr ps)
                  \<and> count_paths m (GraphPaths_all G_example) = Some (Inr (length ps)))
   \<and> \<not> acyclic (edge_rel G_loop)
   \<and> (\<exists>u. \<forall>n. outgoing_paths n G_loop u = None \<and> incoming_paths n G_loop u = None)"
  using paths_terminate_iff_acyclic [of G_example 1 "GraphPaths_all G_example" G_loop]
    G_example_acyclic G_loop_cyclic
  by simp

subsection \<open>The paths from a source to a target\<close>

text \<open>
  C4. For a finite directed acyclic graph \<open>g\<close>, possibly with parallel edges, and vertices
  \<open>s\<close> and \<open>t\<close> of \<open>g\<close>, \<^verbatim>\<open>GraphPaths(g, s, t).list()\<close> returns the vertex sequences of
  the directed walks from \<open>s\<close> to \<open>t\<close>, one entry for each edge sequence (\<open>ws\<close> lists
  every walk exactly once), so parallel edges give equal-looking entries; the one-vertex
  path \<open>[s]\<close> is among them when \<open>s = t\<close>.
\<close>

theorem GraphPaths_st_list_enumerates_walks:
  assumes "acyclic (edge_rel g)" and "s \<in> set (vertices g)" and "t \<in> set (vertices g)"
  shows "\<exists>p n ws. GraphPaths (DiGraphObj g) (Some s) (Some t) = Inr p
           \<and> (\<forall>m\<ge>n. list_paths m p = Some (Inr (map (walk_vertices g s) ws)))
           \<and> distinct ws \<and> set ws = {w. is_walk g s w t}
           \<and> (s = t \<longrightarrow> [s] \<in> set (map (walk_vertices g s) ws))"
proof -
  from outgoing_paths_stable [OF assms(1)] obtain n ps
    where run: "\<forall>m\<ge>n. outgoing_paths m g s = Some ps" by blast
  then have "outgoing_paths n g s = Some ps" by simp
  then obtain ws0 where w0: "outgoing_walks n g s = Some ws0"
    and ps: "ps = map (walk_vertices g s) ws0"
    by (auto simp: outgoing_paths_walks)
  from outgoing_walks_enumerates [OF w0]
  have d0: "distinct ws0" and s0: "set ws0 = walks_from g s" by simp_all
  define ws where "ws = filter (\<lambda>w. last (walk_vertices g s w) = t) ws0"
  have flt: "filter (\<lambda>p. last p = t) ps = map (walk_vertices g s) ws"
    by (simp add: ps ws_def filter_map comp_def)
  have 1: "GraphPaths (DiGraphObj g) (Some s) (Some t) = Inr (GraphPaths_st g s t)"
    using assms(2,3) by (simp add: GraphPaths_def)
  have 2: "\<forall>m\<ge>n. list_paths m (GraphPaths_st g s t)
             = Some (Inr (map (walk_vertices g s) ws))"
    using run by (simp add: paths_from_source_to_target_eq flt)
  have 3: "distinct ws" using d0 by (simp add: ws_def)
  have 4: "set ws = {w. is_walk g s w t}"
    using s0 by (auto simp: ws_def is_walk_iff_last)
  have 5: "s = t \<longrightarrow> [s] \<in> set (map (walk_vertices g s) ws)"
  proof
    assume "s = t"
    then have "[] \<in> set ws" using 4 by simp
    then have "walk_vertices g s [] \<in> set (map (walk_vertices g s) ws)" by simp
    then show "[s] \<in> set (map (walk_vertices g s) ws)" by (simp add: walk_vertices_Nil)
  qed
  from 1 2 3 4 5 show ?thesis by blast
qed

theorem GraphPaths_st_list_enumerates_walks_witness:
  "acyclic (edge_rel G_example) \<and> 1 \<in> set (vertices G_example) \<and> 3 \<in> set (vertices G_example)
   \<and> (\<exists>p n ws. GraphPaths (DiGraphObj G_example) (Some 1) (Some 3) = Inr p
           \<and> (\<forall>m\<ge>n. list_paths m p = Some (Inr (map (walk_vertices G_example 1) ws)))
           \<and> distinct ws \<and> set ws = {w. is_walk G_example 1 w 3}
           \<and> ((1::nat) = 3 \<longrightarrow> [1] \<in> set (map (walk_vertices G_example 1) ws)))
   \<and> list_paths 5 (GraphPaths_st G_example 1 3) = Some (Inr [[1, 2, 3], [1, 2, 3], [1, 3]])"
proof -
  have v: "1 \<in> set (vertices G_example)" "3 \<in> set (vertices G_example)"
    by (simp_all add: G_example_def)
  have e: "list_paths 5 (GraphPaths_st G_example 1 3) = Some (Inr [[1, 2, 3], [1, 2, 3], [1, 3]])"
    by code_simp
  from GraphPaths_st_list_enumerates_walks [OF G_example_acyclic v] G_example_acyclic v e
  show ?thesis by blast
qed

subsection \<open>The constructor \<^verbatim>\<open>GraphPaths\<close>\<close>

text \<open>
  Read to the letter, the last clause of C10 asks of \<^verbatim>\<open>GraphPaths(g)\<close>, called with the
  graph alone, an object whose \<^verbatim>\<open>source\<close> and \<^verbatim>\<open>target\<close> attributes are the arguments
  \<open>None\<close>. The class \<^verbatim>\<open>GraphPaths_all\<close> sets neither: reading them raises
  AttributeError.
\<close>

theorem GraphPaths_all_has_no_endpoint_attributes:
  "GraphPaths (DiGraphObj G_example) None None = Inr (GraphPaths_all G_example)
   \<and> source_attr (GraphPaths_all G_example) = Inl AttributeError
   \<and> source_attr (GraphPaths_all G_example) \<noteq> Inr None
   \<and> target_attr (GraphPaths_all G_example) = Inl AttributeError
   \<and> target_attr (GraphPaths_all G_example) \<noteq> Inr None"
  by (simp add: GraphPaths_def)

text \<open>
  C10, amended. \<^verbatim>\<open>GraphPaths(g, source, target)\<close> raises TypeError whenever \<open>g\<close> is not a
  DiGraph and raises ValueError whenever a supplied source or a supplied target is not a
  vertex of \<open>g\<close>. When no error is raised it returns a paths object whose \<^verbatim>\<open>graph\<close>
  attribute is \<open>g\<close>, whose \<^verbatim>\<open>source\<close> attribute is the source when one was supplied and
  whose \<^verbatim>\<open>target\<close> attribute is the target when one was supplied; the object has no
  \<^verbatim>\<open>source\<close> attribute when no source was supplied and no \<^verbatim>\<open>target\<close> attribute when no
  target was supplied.
\<close>

theorem GraphPaths_errors_and_attributes:
  "GraphPaths (OtherObj name) src0 tgt0 = Inl (TypeError ''g must be a DiGraph'')
   \<and> (s \<notin> set (vertices dg1) \<longrightarrow>
        (\<exists>msg. GraphPaths (DiGraphObj dg1) (Some s) tgt1 = Inl (ValueError msg)))
   \<and> (t \<notin> set (vertices dg2) \<longrightarrow>
        (\<exists>msg. GraphPaths (DiGraphObj dg2) src2 (Some t) = Inl (ValueError msg)))
   \<and> (GraphPaths g src3 tgt3 = Inr p \<longrightarrow>
        g = DiGraphObj (graph_attr p)
        \<and> source_attr p = (case src3 of None \<Rightarrow> Inl AttributeError | Some v \<Rightarrow> Inr (Some v))
        \<and> target_attr p = (case tgt3 of None \<Rightarrow> Inl AttributeError | Some v \<Rightarrow> Inr (Some v)))"
proof (intro conjI impI)
  show "GraphPaths (OtherObj name) src0 tgt0 = Inl (TypeError ''g must be a DiGraph'')"
    by (simp add: GraphPaths_def)
next
  assume "s \<notin> set (vertices dg1)"
  then show "\<exists>msg. GraphPaths (DiGraphObj dg1) (Some s) tgt1 = Inl (ValueError msg)"
    by (cases tgt1) (simp_all add: GraphPaths_def)
next
  assume "t \<notin> set (vertices dg2)"
  then show "\<exists>msg. GraphPaths (DiGraphObj dg2) src2 (Some t) = Inl (ValueError msg)"
    by (cases src2) (simp_all add: GraphPaths_def)
next
  assume ok: "GraphPaths g src3 tgt3 = Inr p"
  then show "g = DiGraphObj (graph_attr p)"
    by (cases g; cases src3; cases tgt3) (auto simp: GraphPaths_def split: if_splits)
  from ok show "source_attr p = (case src3 of None \<Rightarrow> Inl AttributeError | Some v \<Rightarrow> Inr (Some v))"
    by (cases g; cases src3; cases tgt3) (auto simp: GraphPaths_def split: if_splits)
  from ok show "target_attr p = (case tgt3 of None \<Rightarrow> Inl AttributeError | Some v \<Rightarrow> Inr (Some v))"
    by (cases g; cases src3; cases tgt3) (auto simp: GraphPaths_def split: if_splits)
qed

theorem GraphPaths_errors_and_attributes_witness:
  "GraphPaths (OtherObj ''a list'' :: (nat, unit) pyobject) (Some 1) None
     = Inl (TypeError ''g must be a DiGraph'')
   \<and> 9 \<notin> set (vertices G_example)
   \<and> (\<exists>msg. GraphPaths (DiGraphObj G_example) (Some 9) (Some 3) = Inl (ValueError msg))
   \<and> 7 \<notin> set (vertices G_example)
   \<and> (\<exists>msg. GraphPaths (DiGraphObj G_example) None (Some 7) = Inl (ValueError msg))
   \<and> GraphPaths (DiGraphObj G_example) (Some 1) (Some 3) = Inr (GraphPaths_st G_example 1 3)
   \<and> graph_attr (GraphPaths_st G_example 1 3) = G_example
   \<and> source_attr (GraphPaths_st G_example 1 3) = Inr (Some 1)
   \<and> target_attr (GraphPaths_st G_example 1 3) = Inr (Some 3)
   \<and> GraphPaths (DiGraphObj G_example) (Some 3) None = Inr (GraphPaths_s G_example 3)
   \<and> graph_attr (GraphPaths_s G_example 3) = G_example
   \<and> source_attr (GraphPaths_s G_example 3) = Inr (Some 3)
   \<and> target_attr (GraphPaths_s G_example 3) = Inl AttributeError
   \<and> GraphPaths (DiGraphObj G_example) None (Some 4) = Inr (GraphPaths_t G_example 4)
   \<and> graph_attr (GraphPaths_t G_example 4) = G_example
   \<and> source_attr (GraphPaths_t G_example 4) = Inl AttributeError
   \<and> target_attr (GraphPaths_t G_example 4) = Inr (Some 4)
   \<and> GraphPaths (DiGraphObj G_example) None None = Inr (GraphPaths_all G_example)
   \<and> graph_attr (GraphPaths_all G_example) = G_example
   \<and> source_attr (GraphPaths_all G_example) = Inl AttributeError
   \<and> target_attr (GraphPaths_all G_example) = Inl AttributeError"
proof -
  have c_st: "GraphPaths (DiGraphObj G_example) (Some 1) (Some 3) = Inr (GraphPaths_st G_example 1 3)"
    and c_s: "GraphPaths (DiGraphObj G_example) (Some 3) None = Inr (GraphPaths_s G_example 3)"
    and c_t: "GraphPaths (DiGraphObj G_example) None (Some 4) = Inr (GraphPaths_t G_example 4)"
    and c_all: "GraphPaths (DiGraphObj G_example) None None = Inr (GraphPaths_all G_example)"
    by (simp_all add: GraphPaths_def G_example_def)
  have n9: "9 \<notin> set (vertices G_example)" and n7: "7 \<notin> set (vertices G_example)"
    by (simp_all add: G_example_def)
  note general = GraphPaths_errors_and_attributes
    [of "''a list''" "Some (1::nat)" "None :: nat option" 9 G_example "Some 3" 7 G_example None]
  have errors:
    "GraphPaths (OtherObj ''a list'' :: (nat, unit) pyobject) (Some 1) None
       = Inl (TypeError ''g must be a DiGraph'')"
    "\<exists>msg. GraphPaths (DiGraphObj G_example) (Some 9) (Some 3) = Inl (ValueError msg)"
    "\<exists>msg. GraphPaths (DiGraphObj G_example) None (Some 7) = Inl (ValueError msg)"
    using general [of "DiGraphObj G_example" "Some 1" "Some 3" "GraphPaths_st G_example 1 3"]
      n9 n7
    by (simp_all add: GraphPaths_def)
  have a_st: "graph_attr (GraphPaths_st G_example 1 3) = G_example"
    "source_attr (GraphPaths_st G_example 1 3) = Inr (Some 1)"
    "target_attr (GraphPaths_st G_example 1 3) = Inr (Some 3)"
    using general [of "DiGraphObj G_example" "Some 1" "Some 3" "GraphPaths_st G_example 1 3"] c_st
    by simp_all
  have a_s: "graph_attr (GraphPaths_s G_example 3) = G_example"
    "source_attr (GraphPaths_s G_example 3) = Inr (Some 3)"
    "target_attr (GraphPaths_s G_example 3) = Inl AttributeError"
    using general [of "DiGraphObj G_example" "Some 3" None "GraphPaths_s G_example 3"] c_s
    by simp_all
  have a_t: "graph_attr (GraphPaths_t G_example 4) = G_example"
    "source_attr (GraphPaths_t G_example 4) = Inl AttributeError"
    "target_attr (GraphPaths_t G_example 4) = Inr (Some 4)"
    using general [of "DiGraphObj G_example" None "Some 4" "GraphPaths_t G_example 4"] c_t
    by simp_all
  have a_all: "graph_attr (GraphPaths_all G_example) = G_example"
    "source_attr (GraphPaths_all G_example) = Inl AttributeError"
    "target_attr (GraphPaths_all G_example) = Inl AttributeError"
    using general [of "DiGraphObj G_example" None None "GraphPaths_all G_example"] c_all
    by simp_all
  from errors n9 n7 c_st a_st c_s a_s c_t a_t c_all a_all show ?thesis by simp
qed

section \<open>Properties of filtered modules\<close>

lemma sum_of_terms_get:
  "dict_get (sum_of_terms ts) k 0 = sum_list (map snd (filter (\<lambda>t. fst t = k) ts))"
  by (simp add: sum_of_terms_def fold_accumulate_get dict_get_Nil)

lemma sum_of_terms_nonzero: "nonzero_values (sum_of_terms ts)"
  by (simp add: sum_of_terms_def fold_accumulate_nonzero nonzero_values_Nil)

lemma distinct_key_sum:
  "distinct (map fst x) \<Longrightarrow> sum_list (map snd (filter (\<lambda>t. fst t = k) x)) = dict_get x k 0"
proof (induction x)
  case Nil
  then show ?case by (simp add: dict_get_def)
next
  case (Cons t x)
  obtain i c where t: "t = (i, c)" by (cases t)
  show ?case
  proof (cases "i = k")
    case True
    with Cons.prems t have "k \<notin> fst ` set x" by auto
    then have "filter (\<lambda>t. fst t = k) x = []" by (auto simp: filter_empty_conv)
    with True t show ?thesis by (simp add: dict_get_def)
  next
    case False
    with Cons t show ?thesis by (simp add: dict_get_def)
  qed
qed

lemma add_element_get:
  "distinct (map fst y) \<Longrightarrow>
   dict_get (add_element x y) k 0 = dict_get x k 0 + dict_get y k 0"
  by (simp add: add_element_def fold_accumulate_get distinct_key_sum)


lemma dict_accumulate_distinct:
  "distinct (map fst d) \<Longrightarrow> distinct (map fst (dict_accumulate d t x))"
  by (simp add: dict_accumulate_def Let_def dict_set_def dict_del_def distinct_update
        distinct_delete)

lemma fold_accumulate_distinct:
  "distinct (map fst d0) \<Longrightarrow>
   distinct (map fst (fold (\<lambda>(i, c) d. dict_accumulate d i c) ts d0))"
proof (induction ts arbitrary: d0)
  case Nil
  then show ?case by simp
next
  case (Cons t ts)
  obtain i c where t: "t = (i, c)" by (cases t)
  show ?case using Cons.prems by (simp add: t Cons.IH dict_accumulate_distinct)
qed

lemma sum_of_terms_distinct: "distinct (map fst (sum_of_terms ts))"
  by (simp add: sum_of_terms_def fold_accumulate_distinct)

lemma add_element_nonzero: "nonzero_values x \<Longrightarrow> nonzero_values (add_element x y)"
  by (simp add: add_element_def fold_accumulate_nonzero)

lemma sum_elements_fold_get:
  "\<forall>y \<in> set ys. distinct (map fst y) \<Longrightarrow>
   dict_get (fold (\<lambda>y acc. add_element acc y) ys a) k 0
     = dict_get a k 0 + sum_list (map (\<lambda>y. dict_get y k 0) ys)"
  by (induction ys arbitrary: a) (simp_all add: add_element_get add.assoc)

lemma sum_elements_get:
  "\<forall>y \<in> set ys. distinct (map fst y) \<Longrightarrow>
   dict_get (sum_elements ys) k 0 = sum_list (map (\<lambda>y. dict_get y k 0) ys)"
  by (simp add: sum_elements_def sum_elements_fold_get dict_get_Nil)

lemma sum_elements_fold_nonzero:
  "nonzero_values a \<Longrightarrow> nonzero_values (fold (\<lambda>y acc. add_element acc y) ys a)"
proof (induction ys arbitrary: a)
  case Nil
  then show ?case by simp
next
  case (Cons y ys)
  from Cons.prems have "nonzero_values (add_element a y)" by (rule add_element_nonzero)
  then have "nonzero_values (fold (\<lambda>y acc. add_element acc y) ys (add_element a y))"
    by (rule Cons.IH)
  then show ?case by simp
qed

lemma sum_elements_nonzero: "nonzero_values (sum_elements ys)"
  by (simp add: sum_elements_def sum_elements_fold_nonzero nonzero_values_Nil)

lemma wf_element_nonzero: "wf_element x \<Longrightarrow> nonzero_values x"
  unfolding wf_element_def nonzero_values_def
proof (intro allI notI)
  fix k
  assume wf: "distinct (map fst x) \<and> (\<forall>c \<in> set (map snd x). c \<noteq> 0)"
    and z: "map_of x k = Some 0"
  from z have "(k, 0) \<in> set x" by (rule map_of_SomeD)
  then have "snd (k, 0::'b) \<in> snd ` set x" by (rule imageI)
  then have "0 \<in> set (map snd x)" by simp
  with wf show False by blast
qed

lemma filter_key_filter_degree:
  "filter (\<lambda>t. fst t = k) (filter (\<lambda>(i, c). P i) x)
     = (if P k then filter (\<lambda>t. fst t = k) x else [])"
  by (induction x) auto

lemma selected_terms_get:
  "distinct (map fst x) \<Longrightarrow>
   dict_get (sum_of_terms (filter (\<lambda>(i, c). P i) x)) k 0 = (if P k then dict_get x k 0 else 0)"
  unfolding sum_of_terms_get filter_key_filter_degree by (simp add: distinct_key_sum)

lemma homogeneous_component_get:
  "distinct (map fst x) \<Longrightarrow>
   dict_get (homogeneous_component deg x n) k 0 = (if deg k = n then dict_get x k 0 else 0)"
  unfolding homogeneous_component_def by (rule selected_terms_get)

lemma truncate_get:
  "distinct (map fst x) \<Longrightarrow>
   dict_get (truncate_element deg x n) k 0 = (if deg k < n then dict_get x k 0 else 0)"
  unfolding truncate_element_def by (rule selected_terms_get)

lemma sum_list_indicator:
  fixes v :: "'r::ab_group_add"
  shows "distinct ds \<Longrightarrow>
         sum_list (map (\<lambda>d. if e = d then v else 0) ds) = (if e \<in> set ds then v else 0)"
  by (induction ds) auto

lemma outside_support_get:
  "k \<notin> set (support x) \<Longrightarrow> dict_get x k 0 = 0"
  by (simp add: support_def dict_get_def map_of_eq_None_iff [THEN iffD2])

lemma components_get:
  assumes "distinct (map fst x)" and "distinct ds"
  shows "dict_get (sum_elements (map (homogeneous_component deg x) ds)) k 0
           = (if deg k \<in> set ds then dict_get x k 0 else 0)"
proof -
  have "dict_get (sum_elements (map (homogeneous_component deg x) ds)) k 0
      = sum_list (map (\<lambda>y. dict_get y k 0) (map (homogeneous_component deg x) ds))"
    by (rule sum_elements_get) (auto simp: homogeneous_component_def sum_of_terms_distinct)
  also have "\<dots> = sum_list (map (\<lambda>d. if deg k = d then dict_get x k 0 else 0) ds)"
    by (simp add: comp_def homogeneous_component_get assms(1))
  also have "\<dots> = (if deg k \<in> set ds then dict_get x k 0 else 0)"
    using assms(2) by (rule sum_list_indicator)
  finally show ?thesis .
qed

text \<open>
  C5. For every element \<open>x\<close> of a filtered module with basis and every integer \<open>n\<close>,
  \<^verbatim>\<open>x.truncate(n)\<close> equals the sum of \<^verbatim>\<open>x.homogeneous_component(i)\<close> over the degrees
  \<open>i < n\<close> that occur in the support of \<open>x\<close>; and \<open>x\<close> equals the sum of all its
  homogeneous components.
\<close>

theorem truncate_is_sum_of_components:
  assumes "wf_element x"
  shows "dict_eq (truncate_element degree_on_basis x n)
           (sum_elements (map (homogeneous_component degree_on_basis x)
                              (degrees_below degree_on_basis x n)))
       \<and> dict_eq x
           (sum_elements (map (homogeneous_component degree_on_basis x)
                              (degrees_of degree_on_basis x)))"
proof
  from assms have dx: "distinct (map fst x)" by (simp add: wf_element_def)
  have d1: "distinct (degrees_of degree_on_basis x)" by (simp add: degrees_of_def)
  then have d2: "distinct (degrees_below degree_on_basis x n)" by (simp add: degrees_below_def)
  have out: "dict_get x k 0 = 0" if "degree_on_basis k \<notin> set (degrees_of degree_on_basis x)" for k
  proof (rule outside_support_get)
    from that show "k \<notin> set (support x)" by (auto simp: degrees_of_def)
  qed
  show "dict_eq (truncate_element degree_on_basis x n)
           (sum_elements (map (homogeneous_component degree_on_basis x)
                              (degrees_below degree_on_basis x n)))"
  proof (rule dict_eq_from_get)
    show "nonzero_values (truncate_element degree_on_basis x n)"
      by (simp add: truncate_element_def sum_of_terms_nonzero)
    show "nonzero_values (sum_elements (map (homogeneous_component degree_on_basis x)
                              (degrees_below degree_on_basis x n)))"
      by (rule sum_elements_nonzero)
    fix k
    show "dict_get (truncate_element degree_on_basis x n) k 0
        = dict_get (sum_elements (map (homogeneous_component degree_on_basis x)
                              (degrees_below degree_on_basis x n))) k 0"
    proof -
      have "dict_get (sum_elements (map (homogeneous_component degree_on_basis x)
                              (degrees_below degree_on_basis x n))) k 0
          = (if degree_on_basis k \<in> set (degrees_below degree_on_basis x n)
             then dict_get x k 0 else 0)"
        using dx d2 by (rule components_get)
      moreover have "degree_on_basis k \<in> set (degrees_below degree_on_basis x n)
          \<longleftrightarrow> degree_on_basis k < n \<and> degree_on_basis k \<in> set (degrees_of degree_on_basis x)"
        by (auto simp: degrees_below_def)
      ultimately show ?thesis using out [of k] by (simp add: truncate_get dx)
    qed
  qed
  show "dict_eq x
           (sum_elements (map (homogeneous_component degree_on_basis x)
                              (degrees_of degree_on_basis x)))"
  proof (rule dict_eq_from_get)
    show "nonzero_values x" using assms by (rule wf_element_nonzero)
    show "nonzero_values (sum_elements (map (homogeneous_component degree_on_basis x)
                              (degrees_of degree_on_basis x)))"
      by (rule sum_elements_nonzero)
    fix k
    show "dict_get x k 0
        = dict_get (sum_elements (map (homogeneous_component degree_on_basis x)
                              (degrees_of degree_on_basis x))) k 0"
      using out [of k] by (simp add: components_get dx d1)
  qed
qed

theorem truncate_is_sum_of_components_witness:
  "wf_element A_an_element
   \<and> dict_eq (truncate_element partition_degree A_an_element 2)
           (sum_elements (map (homogeneous_component partition_degree A_an_element)
                              (degrees_below partition_degree A_an_element 2)))
   \<and> dict_eq A_an_element
           (sum_elements (map (homogeneous_component partition_degree A_an_element)
                              (degrees_of partition_degree A_an_element)))
   \<and> truncate_element partition_degree A_an_element 2 = [([], 2), ([1], 2)]
   \<and> degrees_below partition_degree A_an_element 2 = [0, 1]"
proof -
  have wf: "wf_element A_an_element" by (simp add: wf_element_def A_an_element_def)
  have t: "truncate_element partition_degree A_an_element 2 = [([], 2), ([1], 2)]" by code_simp
  have d: "degrees_below partition_degree A_an_element 2 = [0, 1]" by code_simp
  from truncate_is_sum_of_components [OF wf, of partition_degree 2] wf t d
  show ?thesis by simp
qed

subsection \<open>The degree of an element\<close>

lemma is_homogeneous_loop_Some:
  "is_homogeneous_loop deg (Some d) ms \<longleftrightarrow> (\<forall>m \<in> set ms. deg m = d)"
  by (induction ms) auto

lemma is_homogeneous_loop_None:
  "is_homogeneous_loop deg None ms \<longleftrightarrow> (\<forall>i \<in> set ms. \<forall>j \<in> set ms. deg i = deg j)"
  by (cases ms) (auto simp: is_homogeneous_loop_Some)

lemma is_homogeneous_iff: "is_homogeneous deg x \<longleftrightarrow> homogeneous deg x"
  by (simp add: is_homogeneous_def homogeneous_def is_homogeneous_loop_None)

lemma fold_max_in: "fold max ms (m::'b::linorder) \<in> set (m # ms)"
  by (induction ms arbitrary: m) (auto simp: max_def)

lemma leading_support_in:
  "support x \<noteq> [] \<Longrightarrow> \<exists>m. leading_support x = Inr m \<and> m \<in> set (support x)"
  using fold_max_in by (cases "support x") (auto simp: leading_support_def)

lemma degree_of_zero:
  "degree degree_on_basis [] = Inl (ValueError ''the zero element does not have a well-defined degree'')"
  by (simp add: degree_def support_def)

lemma degree_of_inhomogeneous:
  assumes "x \<noteq> []" and "\<not> homogeneous degree_on_basis x"
  shows "degree degree_on_basis x = Inl (ValueError ''element is not homogeneous'')"
proof -
  from assms(1) have "support x \<noteq> []" by (simp add: support_def)
  moreover from assms(2) have "\<not> is_homogeneous degree_on_basis x"
    using is_homogeneous_iff by blast
  ultimately show ?thesis by (simp only: degree_def if_False if_True simp_thms)
qed

lemma degree_of_homogeneous:
  assumes "x \<noteq> []" and h: "homogeneous degree_on_basis x"
  shows "\<exists>d. degree degree_on_basis x = Inr d
           \<and> (\<forall>i \<in> set (support x). degree_on_basis i = d)"
proof -
  from assms(1) have ne: "support x \<noteq> []" by (simp add: support_def)
  from leading_support_in [OF ne] obtain m
    where m: "leading_support x = Inr m" and mem: "m \<in> set (support x)" by blast
  from h have ih: "is_homogeneous degree_on_basis x" using is_homogeneous_iff by blast
  from ne ih have "degree degree_on_basis x = map_sum id degree_on_basis (leading_support x)"
    by (simp only: degree_def if_False if_True simp_thms)
  then have "degree degree_on_basis x = Inr (degree_on_basis m)" by (simp add: m)
  moreover from h mem have "\<forall>i \<in> set (support x). degree_on_basis i = degree_on_basis m"
    unfolding homogeneous_def by blast
  ultimately show ?thesis by blast
qed

text \<open>
  C7. For every element \<open>x\<close> of a filtered module with basis, \<^verbatim>\<open>x.degree()\<close> raises
  ValueError if and only if \<open>x\<close> is the zero element or \<open>x\<close> is not homogeneous;
  otherwise it returns the common value of \<^verbatim>\<open>degree_on_basis\<close> over the support of
  \<open>x\<close>.
\<close>

theorem degree_raises_iff_zero_or_inhomogeneous:
  "((\<exists>msg. degree degree_on_basis x = Inl (ValueError msg))
      \<longleftrightarrow> (x = [] \<or> \<not> homogeneous degree_on_basis x))
   \<and> (x \<noteq> [] \<and> homogeneous degree_on_basis x \<longrightarrow>
        (\<exists>d. degree degree_on_basis x = Inr d
           \<and> (\<forall>i \<in> set (support x). degree_on_basis i = d)))"
proof (intro conjI iffI impI)
  assume raised: "\<exists>msg. degree degree_on_basis x = Inl (ValueError msg)"
  show "x = [] \<or> \<not> homogeneous degree_on_basis x"
  proof (rule ccontr)
    assume "\<not> (x = [] \<or> \<not> homogeneous degree_on_basis x)"
    then have "x \<noteq> []" and "homogeneous degree_on_basis x" by simp_all
    then have "\<exists>d. degree degree_on_basis x = Inr d
           \<and> (\<forall>i \<in> set (support x). degree_on_basis i = d)"
      by (rule degree_of_homogeneous)
    then obtain d where "degree degree_on_basis x = Inr d" by (elim exE conjE)
    with raised show False by simp
  qed
next
  assume bad: "x = [] \<or> \<not> homogeneous degree_on_basis x"
  show "\<exists>msg. degree degree_on_basis x = Inl (ValueError msg)"
  proof (cases "x = []")
    case True
    then show ?thesis by (simp add: degree_of_zero)
  next
    case False
    with bad have "\<not> homogeneous degree_on_basis x" by simp
    with False show ?thesis by (simp add: degree_of_inhomogeneous)
  qed
next
  assume "x \<noteq> [] \<and> homogeneous degree_on_basis x"
  then have "x \<noteq> []" and "homogeneous degree_on_basis x" by simp_all
  then show "\<exists>d. degree degree_on_basis x = Inr d
           \<and> (\<forall>i \<in> set (support x). degree_on_basis i = d)"
    by (rule degree_of_homogeneous)
qed

theorem degree_raises_iff_zero_or_inhomogeneous_witness:
  "(\<exists>msg. degree partition_degree ([] :: (nat list, int) element) = Inl (ValueError msg))
   \<and> \<not> homogeneous partition_degree [([3, 2, 1], - 1 :: int), ([4, 4, 1], 1)]
   \<and> (\<exists>msg. degree partition_degree [([3, 2, 1], - 1 :: int), ([4, 4, 1], 1)]
              = Inl (ValueError msg))
   \<and> [([3, 2, 1], 1 :: int), ([2, 2, 2], 2)] \<noteq> []
   \<and> homogeneous partition_degree [([3, 2, 1], 1 :: int), ([2, 2, 2], 2)]
   \<and> degree partition_degree [([3, 2, 1], 1 :: int), ([2, 2, 2], 2)] = Inr 6
   \<and> list_all (\<lambda>i. partition_degree i = 6) (support [([3, 2, 1], 1 :: int), ([2, 2, 2], 2)])"
proof -
  have h1: "\<not> homogeneous partition_degree [([3, 2, 1], - 1 :: int), ([4, 4, 1], 1)]"
    by (simp add: homogeneous_def support_def partition_degree_def)
  have h2: "homogeneous partition_degree [([3, 2, 1], 1 :: int), ([2, 2, 2], 2)]"
    by (simp add: homogeneous_def support_def partition_degree_def)
  have e: "degree partition_degree [([3, 2, 1], 1 :: int), ([2, 2, 2], 2)] = Inr 6"
    by code_simp
  have a: "\<exists>msg. degree partition_degree ([] :: (nat list, int) element) = Inl (ValueError msg)"
    using degree_raises_iff_zero_or_inhomogeneous
            [of partition_degree "[] :: (nat list, int) element"]
    by simp
  have b: "\<exists>msg. degree partition_degree [([3, 2, 1], - 1 :: int), ([4, 4, 1], 1)]
              = Inl (ValueError msg)"
    using degree_raises_iff_zero_or_inhomogeneous
            [of partition_degree "[([3, 2, 1], - 1 :: int), ([4, 4, 1], 1)]"] h1
    by blast
  have c: "\<forall>i \<in> set (support [([3, 2, 1], 1 :: int), ([2, 2, 2], 2)]). partition_degree i = 6"
    using degree_raises_iff_zero_or_inhomogeneous
            [of partition_degree "[([3, 2, 1], 1 :: int), ([2, 2, 2], 2)]"] h2 e
    by simp
  from c have c': "list_all (\<lambda>i. partition_degree i = 6)
                     (support [([3, 2, 1], 1 :: int), ([2, 2, 2], 2)])"
    by (simp only: list_all_iff)
  from a b c' h1 h2 e show ?thesis by simp
qed

section \<open>Properties of the Lie algebras\<close>

lemma neg_element_involution:
  fixes val :: "('i, 'r::ab_group_add) element"
  shows "neg_element (neg_element val) = val"
  by (induction val) (auto simp: neg_element_def)

lemma neg_element_zero: "neg_element zero_element = zero_element"
  by (simp add: neg_element_def zero_element_def)

lemma filter_nonzero_neg:
  fixes c :: "('i \<times> 'r::ab_group_add) list"
  shows "filter (\<lambda>(g, val). val \<noteq> 0) (neg_element c)
       = neg_element (filter (\<lambda>(g, val). val \<noteq> 0) c)"
  by (induction c) (auto simp: neg_element_def)

lemma bracket_swapped:
  fixes L :: "('i, 'r::ab_group_add) lie_algebra"
  assumes "0 < cmp x y" and "\<not> 0 < cmp y x"
  shows "bracket_on_basis cmp L y x = neg_element (bracket_on_basis cmp L x y)"
proof (cases L)
  case (AbelianLieAlgebra names index_set)
  then show ?thesis by (simp add: neg_element_zero)
next
  case (LieAlgebraWithStructureCoefficients s_coeff names index_set)
  then show ?thesis using assms
    by (cases "map_of s_coeff (y, x)") (simp_all add: neg_element_zero neg_element_involution)
qed

lemma bracket_ordered:
  fixes L :: "('i, 'r::ab_group_add) lie_algebra"
  assumes "\<not> 0 < cmp x y" and "0 < cmp y x"
  shows "bracket_on_basis cmp L y x = neg_element (bracket_on_basis cmp L x y)"
proof (cases L)
  case (AbelianLieAlgebra names index_set)
  then show ?thesis by (simp add: neg_element_zero)
next
  case (LieAlgebraWithStructureCoefficients s_coeff names index_set)
  then show ?thesis using assms
    by (cases "map_of s_coeff (x, y)") (simp_all add: neg_element_zero)
qed

lemma standardize_entry_reversed:
  fixes c :: "('i::linorder \<times> 'r::linordered_idom) list"
  shows "standardize_entry (b, a) (neg_element c) = standardize_entry (a, b) c"
proof -
  consider "a < b" | "a = b" | "b < a" by (rule linorder_cases)
  then show ?thesis
  proof cases
    case 1
    then have na: "\<not> b < a" by simp
    with 1 have "standardize_entry (b, a) (neg_element c)
        = Inr ((a, b), neg_element (filter (\<lambda>(g, val). val \<noteq> 0) (neg_element c)))"
      by (simp add: standardize_entry_def neg_element_def)
    also have "\<dots> = Inr ((a, b), filter (\<lambda>(g, val). val \<noteq> 0) c)"
      by (simp add: filter_nonzero_neg neg_element_involution)
    also have "\<dots> = standardize_entry (a, b) c"
      using 1 na by (simp add: standardize_entry_def)
    finally show ?thesis .
  next
    case 2
    then show ?thesis by (simp add: standardize_entry_def)
  next
    case 3
    then have nb: "\<not> a < b" by simp
    with 3 have "standardize_entry (b, a) (neg_element c)
        = Inr ((b, a), filter (\<lambda>(g, val). val \<noteq> 0) (neg_element c))"
      by (simp add: standardize_entry_def)
    also have "\<dots> = Inr ((b, a), neg_element (filter (\<lambda>(g, val). val \<noteq> 0) c))"
      by (simp add: filter_nonzero_neg)
    also have "\<dots> = standardize_entry (a, b) c"
      using 3 nb by (simp add: standardize_entry_def neg_element_def)
    finally show ?thesis .
  qed
qed

lemma standardize_reversed_key:
  fixes c :: "('i::linorder \<times> 'r::linordered_idom) list"
  shows "standardize_s_coeff [((b, a), neg_element c)] = standardize_s_coeff [((a, b), c)]"
  by (simp add: standardize_s_coeff_def standardize_entry_reversed)

text \<open>
  C3. For every Lie algebra \<open>L\<close> constructed from a dictionary of structure coefficients
  and every pair of distinct basis indices \<open>x\<close>, \<open>y\<close>, which the comparison function
  orders one way, \<^verbatim>\<open>L.bracket_on_basis(y, x) == -L.bracket_on_basis(x, y)\<close>; and the
  construction from the key \<open>(a, b)\<close> with coefficients \<open>c\<close> and the construction from
  the reversed key \<open>(b, a)\<close> with coefficients \<open>-c\<close> give the same standardized
  coefficients and the same algebra.
\<close>

theorem bracket_antisymmetric_and_reversed_key:
  fixes L :: "('i::linorder, 'r::linordered_idom) lie_algebra"
  shows "(classcall_private s_coeff names index_set = Inr L \<and> x \<noteq> y
            \<and> (0 < cmp x y \<longleftrightarrow> \<not> 0 < cmp y x)
          \<longrightarrow> bracket_on_basis cmp L y x = neg_element (bracket_on_basis cmp L x y))
       \<and> standardize_s_coeff [((b, a), neg_element c)] = standardize_s_coeff [((a, b), c)]
       \<and> classcall_private [((b, a), neg_element c)] ns ix
            = (classcall_private [((a, b), c)] ns ix :: error + ('i, 'r) lie_algebra)"
proof (intro conjI impI)
  assume "classcall_private s_coeff names index_set = Inr L \<and> x \<noteq> y
            \<and> (0 < cmp x y \<longleftrightarrow> \<not> 0 < cmp y x)"
  then have tot: "0 < cmp x y \<longleftrightarrow> \<not> 0 < cmp y x" by simp
  show "bracket_on_basis cmp L y x = neg_element (bracket_on_basis cmp L x y)"
  proof (cases "0 < cmp x y")
    case True
    with tot show ?thesis by (simp add: bracket_swapped)
  next
    case False
    with tot show ?thesis by (simp add: bracket_ordered)
  qed
next
  show "standardize_s_coeff [((b, a), neg_element c)] = standardize_s_coeff [((a, b), c)]"
    by (rule standardize_reversed_key)
next
  show "classcall_private [((b, a), neg_element c)] ns ix
            = (classcall_private [((a, b), c)] ns ix :: error + ('i, 'r) lie_algebra)"
    by (simp add: classcall_private_def standardize_reversed_key)
qed

lemma cross_product_constructed:
  "classcall_private cross_product_s_coeff (Some [''x'', ''y'', ''z'']) None
     = Inr cross_product_algebra"
  by code_simp

theorem bracket_antisymmetric_and_reversed_key_witness:
  "classcall_private cross_product_s_coeff (Some [''x'', ''y'', ''z'']) None
     = Inr cross_product_algebra
   \<and> ''x'' \<noteq> ''y''
   \<and> (0 < py_cmp ''x'' ''y'' \<longleftrightarrow> \<not> 0 < py_cmp ''y'' ''x'')
   \<and> bracket_on_basis py_cmp cross_product_algebra ''y'' ''x''
       = neg_element (bracket_on_basis py_cmp cross_product_algebra ''x'' ''y'')
   \<and> bracket_on_basis py_cmp cross_product_algebra ''x'' ''y'' = [(''z'', 1)]
   \<and> standardize_s_coeff [((''y'', ''x''), neg_element [(''x'', 1 :: rat)])]
       = standardize_s_coeff [((''x'', ''y''), [(''x'', 1)])]
   \<and> standardize_s_coeff [((''x'', ''y''), [(''x'', 1 :: rat)])]
       = Inr [((''x'', ''y''), [(''x'', 1)])]"
proof -
  have c: "0 < py_cmp ''x'' ''y'' \<longleftrightarrow> \<not> 0 < py_cmp ''y'' ''x''"
    by (simp add: py_cmp_def)
  have n: "''x'' \<noteq> ''y''" by simp
  have b: "bracket_on_basis py_cmp cross_product_algebra ''x'' ''y'' = [(''z'', 1)]"
    by (simp add: cross_product_algebra_def py_cmp_def)
  have s: "standardize_s_coeff [((''x'', ''y''), [(''x'', 1 :: rat)])]
       = Inr [((''x'', ''y''), [(''x'', 1)])]"
    by (simp add: standardize_s_coeff_def standardize_entry_def dict_set_def)
  from bracket_antisymmetric_and_reversed_key
         [of cross_product_s_coeff "Some [''x'', ''y'', ''z'']" None cross_product_algebra
             "''x''" "''y''" py_cmp "''y''" "''x''" "[(''x'', 1)]" None None]
       cross_product_constructed c n b s
  show ?thesis by simp
qed

section \<open>Properties of the Weyl algebra\<close>

lemma unit_exponent_split:
  "i < n \<Longrightarrow> (replicate n 0)[i := Suc 0] = replicate i 0 @ Suc 0 # replicate (n - Suc i) 0"
  by (simp add: upd_conv_take_nth_drop min_def)

lemma unit_exponent_neq:
  assumes "i < n"
  shows "(replicate n 0)[i := Suc 0] \<noteq> replicate n 0"
proof
  assume eq: "(replicate n 0)[i := Suc 0] = replicate n 0"
  from assms have "(replicate n (0::nat))[i := Suc 0] ! i = Suc 0" by simp
  with eq have "replicate n (0::nat) ! i = Suc 0" by simp
  with assms show False by simp
qed

lemma no_derivative_loop:
  "s + k \<le> n \<Longrightarrow>
   fold_err (\<lambda>(i, p) d. if \<not> i < n then Inl IndexError else fold_err (g i) [0..<p] d)
     (enumerate s (replicate k 0)) d = Inr d"
  by (induction k arbitrary: s) simp_all

lemma derive_step_once:
  assumes "i < ngens R"
  shows "derive_step R i (replicate (ngens R) 0, p) [(replicate (ngens R) 0, p)]
       = Inr (if derivative R p i = 0 then [((replicate (ngens R) 0)[i := Suc 0], p)]
              else [(replicate (ngens R) 0, derivative R p i),
                    ((replicate (ngens R) 0)[i := Suc 0], p)])"
  using assms unit_exponent_neq [OF assms]
  by (simp add: derive_step_def Let_def dict_set_def dict_get_def dict_del_def)

lemma expand_derivative_gen:
  assumes "i < ngens R" and "\<not> is_constant R p"
  shows "expand_derivative R p ((replicate (ngens R) 0)[i := Suc 0])
       = Inr (if derivative R p i = 0 then [((replicate (ngens R) 0)[i := Suc 0], p)]
              else [(replicate (ngens R) 0, derivative R p i),
                    ((replicate (ngens R) 0)[i := Suc 0], p)])"
proof -
  let ?n = "ngens R"
  let ?f = "\<lambda>(i, p) d. if \<not> i < ?n then Inl IndexError
                       else fold_err (\<lambda>j d. fold_err (derive_step R i) d d) [0..<p] d"
  let ?d0 = "[(replicate ?n 0, p)]"
  have split: "enumerate 0 ((replicate ?n 0)[i := Suc 0])
      = enumerate 0 (replicate i 0) @ (i, Suc 0) # enumerate (Suc i) (replicate (?n - Suc i) 0)"
    using assms(1) by (simp add: unit_exponent_split enumerate_append_eq)
  have before: "fold_err ?f (enumerate 0 (replicate i 0)) ?d0 = Inr ?d0"
    using assms(1) by (intro no_derivative_loop) simp
  have after: "fold_err ?f (enumerate (Suc i) (replicate (?n - Suc i) 0)) d = Inr d" for d
    using assms(1) by (intro no_derivative_loop) simp
  have at: "?f (i, Suc 0) ?d0 = derive_step R i (replicate ?n 0, p) ?d0"
    using assms(1) by (simp split: sum.splits)
  have "fold_err ?f (enumerate 0 ((replicate ?n 0)[i := Suc 0])) ?d0
      = derive_step R i (replicate ?n 0, p) ?d0"
    unfolding split fold_err_append before
    by (simp only: sum.case fold_err.simps at derive_step_once [OF assms(1)] after)
  then show ?thesis
    using assms(2) by (simp only: expand_derivative_def if_False derive_step_once [OF assms(1)])
qed


lemma lmul_gen:
  assumes "i < ngens R" and nz: "\<not> is_constant R p \<longrightarrow> p \<noteq> 0"
  shows "lmul R [((replicate (ngens R) 0)[i := Suc 0], 1)] p
       = Inr (if p = 0 then []
              else if is_constant R p \<or> derivative R p i = 0
                then [((replicate (ngens R) 0)[i := Suc 0], p)]
              else [(replicate (ngens R) 0, derivative R p i),
                    ((replicate (ngens R) 0)[i := Suc 0], p)])"
proof (cases "is_constant R p")
  case True
  then show ?thesis
    by (simp add: lmul_def expand_derivative_def dict_accumulate_Nil)
next
  case False
  with nz have p: "p \<noteq> 0" by simp
  from False show ?thesis
    using unit_exponent_neq [OF assms(1)] p
    by (simp add: lmul_def expand_derivative_gen [OF assms(1) False] dict_accumulate_Nil
          dict_accumulate_other)
qed

lemma rhs_gen:
  assumes "i < ngens R"
  shows "map_of (weyl_add (rmul [((replicate (ngens R) 0)[i := Suc 0], 1)] p)
                          (rmul (weyl_one R) q))
       = map_of (if p = 0 then (if q = 0 then [] else [(replicate (ngens R) 0, q)])
                 else if q = 0 then [((replicate (ngens R) 0)[i := Suc 0], p)]
                 else [(replicate (ngens R) 0, q),
                       ((replicate (ngens R) 0)[i := Suc 0], p)])"
  using unit_exponent_neq [OF assms]
  by (auto simp: weyl_add_def rmul_def weyl_one_def dict_accumulate_Nil dict_accumulate_other
        fun_eq_iff)

text \<open>
  C2. In the Weyl algebra \<open>W\<close> of a polynomial ring \<open>R\<close>, for every generator
  \<open>d_i = W.gen(i)\<close> and every polynomial \<open>p\<close> of \<open>R\<close>, the product \<open>d_i * p\<close> equals
  \<open>p * d_i + dp/dx_i\<close>, the derivative entering \<open>W\<close> as its multiple of \<open>W.one()\<close>.
  Of the polynomial ring the proof uses that a constant has derivative zero and that zero
  is constant.
\<close>

theorem generator_commutation_relation:
  assumes "i < ngens R"
    and "is_constant R p \<longrightarrow> derivative R p i = 0"
    and "\<not> is_constant R p \<longrightarrow> p \<noteq> 0"
  shows "\<exists>d_i product.
           gen R i = Inr d_i \<and> lmul R d_i p = Inr product
           \<and> dict_eq product
                (weyl_add (rmul d_i p) (rmul (weyl_one R) (derivative R p i)))"
proof -
  let ?e = "(replicate (ngens R) 0)[i := Suc 0]"
  let ?q = "derivative R p i"
  have g: "gen R i = Inr [(?e, 1)]" using assms(1) by (simp add: gen_def)
  have l: "lmul R [(?e, 1)] p
       = Inr (if p = 0 then []
              else if is_constant R p \<or> ?q = 0 then [(?e, p)]
              else [(replicate (ngens R) 0, ?q), (?e, p)])"
    using assms(1,3) by (rule lmul_gen)
  have z: "?q = 0" if "p = 0" using that assms(2,3) by blast
  have "dict_eq (if p = 0 then []
              else if is_constant R p \<or> ?q = 0 then [(?e, p)]
              else [(replicate (ngens R) 0, ?q), (?e, p)])
          (weyl_add (rmul [(?e, 1)] p) (rmul (weyl_one R) ?q))"
    unfolding dict_eq_def rhs_gen [OF assms(1)] using z assms(2) by auto
  with g l show ?thesis by blast
qed

theorem generator_commutation_relation_witness:
  "0 < ngens linear_ring
   \<and> \<not> is_constant linear_ring (Linear 3 2)
   \<and> Linear 3 2 \<noteq> 0
   \<and> (\<exists>d_i product.
           gen linear_ring 0 = Inr d_i \<and> lmul linear_ring d_i (Linear 3 2) = Inr product
           \<and> dict_eq product
                (weyl_add (rmul d_i (Linear 3 2))
                   (rmul (weyl_one linear_ring) (derivative linear_ring (Linear 3 2) 0))))
   \<and> lmul linear_ring [([1], 1)] (Linear 3 2) = Inr [([0], Linear 2 0), ([1], Linear 3 2)]"
proof -
  have h1: "0 < ngens linear_ring" by (simp add: linear_ring_def)
  have h2: "is_constant linear_ring (Linear 3 2) \<longrightarrow> derivative linear_ring (Linear 3 2) 0 = 0"
    by (simp add: linear_ring_def)
  have h3: "\<not> is_constant linear_ring (Linear 3 2) \<longrightarrow> Linear 3 2 \<noteq> 0"
    by (simp add: zero_linear_def)
  have e: "lmul linear_ring [([1], 1)] (Linear 3 2) = Inr [([0], Linear 2 0), ([1], Linear 3 2)]"
    by code_simp
  have n1: "\<not> is_constant linear_ring (Linear 3 2)" by (simp add: linear_ring_def)
  have n2: "Linear 3 2 \<noteq> 0" by (simp add: zero_linear_def)
  from generator_commutation_relation [OF h1 h2 h3] h1 n1 n2 e
  show ?thesis by blast
qed

section \<open>The table of residues and the transition function in base 3\<close>

text \<open>
  C8. After parsing, \<^verbatim>\<open>Recursion\<close> is to raise ValueError unless every residue class
  modulo \<open>base^max_K\<close> is covered by exactly one expanded rule, reporting conflicting
  rules when two rules cover a class and missing recursions when no rule covers one.
  The expansion computes \<^verbatim>\<open>R = rule.r + 2**rule.K * ell\<close>, with \<open>2\<close> where the base is
  meant. In base 3, for the rules \<open>f(3n) = f(n)\<close>, \<open>f(3n + 1) = f(n) + 1\<close>,
  \<open>f(9n + 6) = f(n) + 2\<close>, \<open>f(9n + 7) = f(n) + 3\<close>, \<open>f(9n + 8) = f(n) + 4\<close>, the table is
  filled without any error, although the class of 6 modulo 9 is covered by two rules and
  the class of 2 by none.
\<close>

theorem ternary_residues_accepted_without_cover:
  "build_residues 3 ternary_mixed_rules
     = Inr [[None],
            [Some (RuleRight 0 0 0), Some (RuleRight 0 0 1), None],
            [Some (RuleRight 1 0 0), Some (RuleRight 1 0 1), Some (RuleRight 1 0 0),
             Some (RuleRight 1 0 1), Some (RuleRight 1 0 0), Some (RuleRight 1 0 1),
             Some (RuleRight 0 0 2), Some (RuleRight 0 0 3), Some (RuleRight 0 0 4)]]
   \<and> covers 3 (Rule 1 0 0 0 (0::int)) 6
   \<and> covers 3 (Rule 2 6 0 0 (2::int)) 6
   \<and> Rule 1 0 0 0 0 \<in> set ternary_mixed_rules
   \<and> Rule 2 6 0 0 2 \<in> set ternary_mixed_rules
   \<and> list_all (\<lambda>rule. \<not> covers 3 rule 2) ternary_mixed_rules"
proof (intro conjI)
  show "build_residues 3 ternary_mixed_rules
     = Inr [[None],
            [Some (RuleRight 0 0 0), Some (RuleRight 0 0 1), None],
            [Some (RuleRight 1 0 0), Some (RuleRight 1 0 1), Some (RuleRight 1 0 0),
             Some (RuleRight 1 0 1), Some (RuleRight 1 0 0), Some (RuleRight 1 0 1),
             Some (RuleRight 0 0 2), Some (RuleRight 0 0 3), Some (RuleRight 0 0 4)]]"
    by code_simp
  show "covers 3 (Rule 1 0 0 0 (0::int)) 6" by (simp add: covers_def)
  show "covers 3 (Rule 2 6 0 0 (2::int)) 6" by (simp add: covers_def)
  show "Rule 1 0 0 0 0 \<in> set ternary_mixed_rules" by (simp add: ternary_mixed_rules_def)
  show "Rule 2 6 0 0 2 \<in> set ternary_mixed_rules" by (simp add: ternary_mixed_rules_def)
  show "list_all (\<lambda>rule. \<not> covers 3 rule 2) ternary_mixed_rules"
    by (simp add: ternary_mixed_rules_def covers_def)
qed

text \<open>
  C1. The transducer returned by \<^verbatim>\<open>Recursion\<close> is to produce \<open>f(m)\<close> on the digit
  expansion of \<open>m\<close> in the given base. The transition function computes
  \<^verbatim>\<open>R = current % 2**K\<close>, with \<open>2\<close> where the base is meant. In base 3, for the sum of
  digits \<open>f(3n) = f(n)\<close>, \<open>f(3n + 1) = f(n) + 1\<close>, \<open>f(3n + 2) = f(n) + 2\<close>, \<open>f(0) = 0\<close>,
  the table of residues is built without error, and reading the digit 2 in the initial
  state \<open>(0, 0)\<close> applies the rule of residue 0: the output is 0 and the next carry is
  2/3, whereas the equations give \<open>f(2) = 2\<close>.
\<close>

theorem ternary_digit_sum_wrong_transition:
  "build_residues 3 ternary_digit_sum_rules
     = Inr [[None], [Some (RuleRight 0 0 0), Some (RuleRight 0 0 1), Some (RuleRight 0 0 2)]]
   \<and> transition_function 3
         [[None], [Some (RuleRight 0 0 0), Some (RuleRight 0 0 1), Some (RuleRight 0 0 (2::int))]]
         (0, 0) 2
       = Inr ((2 / 3, 0), [0])
   \<and> recursion_value 3 3 ternary_digit_sum_rules [(0, 0)] 2 = Some 2"
proof (intro conjI)
  show "build_residues 3 ternary_digit_sum_rules
     = Inr [[None], [Some (RuleRight 0 0 0), Some (RuleRight 0 0 1), Some (RuleRight 0 0 2)]]"
    by code_simp
  show "transition_function 3
         [[None], [Some (RuleRight 0 0 0), Some (RuleRight 0 0 1), Some (RuleRight 0 0 (2::int))]]
         (0, 0) 2
       = Inr ((2 / 3, 0), [0])"
    by (simp add: transition_function_def rational_mod_def Let_def)
  show "recursion_value 3 3 ternary_digit_sum_rules [(0, 0)] 2 = Some 2"
    by code_simp
qed

section \<open>Properties of the parser of \<^verbatim>\<open>Recursion\<close>\<close>

lemma exponent_less_power:
  assumes "2 \<le> base"
  shows "K < base ^ K"
proof -
  have "K < 2 ^ K" by (rule less_exp)
  also have "(2::nat) ^ K \<le> base ^ K" using assms by (rule power_mono) simp
  finally show ?thesis .
qed

lemma log_in_ZZ_Some:
  assumes "2 \<le> base"
  shows "log_in_ZZ base c = Some K \<longleftrightarrow> c = int base ^ K"
proof
  assume "log_in_ZZ base c = Some K"
  then show "c = int base ^ K" by (auto simp: log_in_ZZ_def find_Some_iff)
next
  assume c: "c = int base ^ K"
  have "K < base ^ K" using assms by (rule exponent_less_power)
  then have mem: "K \<in> set [0..<nat c]" by (simp add: c flip: of_nat_power)
  then have "find (\<lambda>K. int base ^ K = c) [0..<nat c] \<noteq> None"
    using c by (auto simp: find_None_iff)
  then obtain K' where K': "find (\<lambda>K. int base ^ K = c) [0..<nat c] = Some K'" by auto
  then have "int base ^ K' = c" by (auto simp: find_Some_iff)
  with c have "base ^ K' = base ^ K" by (simp flip: of_nat_power)
  with assms have "K' = K" by simp
  with K' show "log_in_ZZ base c = Some K" by (simp add: log_in_ZZ_def)
qed

lemma log_in_ZZ_None:
  assumes "2 \<le> base"
  shows "log_in_ZZ base c = None \<longleftrightarrow> (\<forall>K. c \<noteq> int base ^ K)"
proof -
  have "log_in_ZZ base c = None \<longleftrightarrow> (\<forall>K. log_in_ZZ base c \<noteq> Some K)" by auto
  then show ?thesis by (simp add: log_in_ZZ_Some [OF assms])
qed
























end
